theory Spec2Isabelle
  imports Complex_Main "HOL-Library.AList"
begin

section \<open>Geometry primitives of the graph module\<close>

text \<open>
  The graph module (graph.js, v3.4) computes with JavaScript numbers. They are modelled
  here as exact reals: every operation the module uses (\<open>+\<close>, \<open>-\<close>, \<open>*\<close>, \<open>/\<close>,
  \<open>Math.min\<close>, \<open>Math.max\<close>, \<open>Math.round\<close>, \<open>Math.ceil\<close>) is taken without rounding
  error and without overflow. \<open>Infinity\<close>, where the code starts a minimum search
  from it, is the value \<open>None\<close> of an option.
\<close>

record point =
  pt_x :: real
  pt_y :: real

text \<open>
  \<open>bezierPoint(t, sx, sy, tx, ty)\<close>: the cubic with control points
  \<open>(sx,sy)\<close>, \<open>(mx,sy)\<close>, \<open>(mx,ty)\<close>, \<open>(tx,ty)\<close>, where \<open>mx = (sx + tx) / 2\<close>.
\<close>

definition bezierPoint :: "real \<Rightarrow> real \<Rightarrow> real \<Rightarrow> real \<Rightarrow> real \<Rightarrow> point" where
  "bezierPoint t sx sy tx ty =
     (let mx = (sx + tx) / 2;
          u = 1 - t;
          uu = u * u; uuu = uu * u;
          tt = t * t; ttt = tt * t
      in \<lparr> pt_x = uuu * sx + 3 * uu * t * mx + 3 * u * tt * mx + ttt * tx,
           pt_y = uuu * sy + 3 * uu * t * sy + 3 * u * tt * ty + ttt * ty \<rparr>)"


text \<open>
  One loop iteration: \<open>if (dist < bestDist) { bestDist = dist; bestT = t; }\<close>.
  The search state is \<open>(bestT, bestDist)\<close>; \<open>bestDist = None\<close> is \<open>Infinity\<close>.
\<close>

definition below :: "real \<Rightarrow> real option \<Rightarrow> bool" where
  "below d bestDist = (case bestDist of None \<Rightarrow> True | Some b \<Rightarrow> d < b)"






section \<open>The data of an assembly (state.js)\<close>

text \<open>
  Rows as the database module loads them. Identifiers are the integer keys of the rows
  (graph.js reads them back with \<open>parseInt\<close>). A column that may be \<open>null\<close> is an
  option. Only the columns that the layout, the drag handler, the save operation and
  the link generator read are kept; colours, icons, part numbers of parts and other
  display text are left out.
\<close>

type_synonym ident = int

record assembly =
  assy_id :: ident
  tag :: "string option"

record grp =
  grp_id :: ident
  grp_label :: string
  grp_sort_order :: "int option"

record step =
  step_id :: ident
  group_id :: ident
  step_label :: string
  step_sort_order :: "int option"
  step_y :: "real option"
  label_position :: "real option"

record part =
  part_id :: ident
  part_step_id :: ident
  part_sort_order :: "int option"

record fast =
  fast_step_id :: ident
  pn :: "string option"
  qty :: "int option"
  loctite :: "string option"
  torque :: "string option"

text \<open>The module variables of state.js that the graph module reads or writes.\<close>

record state =
  assy :: "assembly option"
  groups :: "grp list"
  steps :: "step list"
  parts :: "part list"
  fasts :: "fast list"
  visibleGroupIds :: "ident set option"
  gap1 :: real
  gap2 :: real
  showPartNodes :: bool
  showFastenerLabels :: bool
  layoutDirty :: bool

text \<open>
  \<open>(a.sort_order || 0)\<close>: a missing sort key counts as \<open>0\<close>. The comparator
  \<open>(a, b) => key a - key b\<close> with the stable \<open>Array.prototype.sort\<close> is a stable sort
  by that key, which is what \<^const>\<open>sort_key\<close> (insertion sort) computes.
\<close>

definition sortKey :: "int option \<Rightarrow> int" where
  "sortKey so = (case so of None \<Rightarrow> 0 | Some k \<Rightarrow> k)"

definition sortGroups :: "grp list \<Rightarrow> grp list" where
  "sortGroups gs = sort_key (\<lambda>g. sortKey (grp_sort_order g)) gs"

text \<open>
  \<open>steps.filter(s => s.group_id === grp.id).sort(...)\<close>, the steps of one group in
  sort-key order; both modules compute it the same way.
\<close>

definition groupSteps :: "step list \<Rightarrow> grp \<Rightarrow> step list" where
  "groupSteps ss g =
     sort_key (\<lambda>s. sortKey (step_sort_order s)) (filter (\<lambda>s. group_id s = grp_id g) ss)"

definition stepParts :: "part list \<Rightarrow> ident \<Rightarrow> part list" where
  "stepParts ps sid =
     sort_key (\<lambda>p. sortKey (part_sort_order p)) (filter (\<lambda>p. part_step_id p = sid) ps)"

text \<open>A string that JavaScript takes as true: neither \<open>null\<close> nor empty.\<close>

definition truthy :: "string option \<Rightarrow> bool" where
  "truthy v = (case v of None \<Rightarrow> False | Some t \<Rightarrow> t \<noteq> [])"

section \<open>Position saving and link generation (database.js)\<close>

text \<open>
  \<open>savePositions(posMap)\<close> updates one row per entry and counts the updates that
  returned no error. The database is a parameter: \<open>err e\<close> says whether the update
  for entry \<open>e\<close> returns an error.
\<close>

definition savePositions :: "(ident \<times> point \<Rightarrow> bool) \<Rightarrow> (ident \<times> point) list \<Rightarrow> nat" where
  "savePositions err posMap = fold (\<lambda>e count. if \<not> err e then count + 1 else count) posMap 0"











section \<open>The swimlane layout (graph.js, calculateTreeLayout)\<close>

text \<open>
  Node identifiers are the strings \<open>'s_' + step.id\<close>, \<open>'g_' + grp.id\<close> and \<open>'root'\<close>.
  A node keeps its three kind flags as the code has them. Of a node's fields the model
  keeps the geometry, the identifiers, the label and the flags.
\<close>

datatype nid = StepNode ident | GroupNode ident | RootNode

datatype link_type = StepToGroup | GroupToRoot

record node =
  node_id :: nid
  dbId :: "ident option"
  node_x :: real
  node_y :: real
  node_w :: real
  node_h :: real
  node_label :: string
  groupId :: "ident option"
  isStep :: bool
  isGroup :: bool
  isRoot :: bool

record link =
  sourceId :: nid
  targetId :: nid
  link_type :: link_type
  stepDbId :: "ident option"
  labelPos :: "real option"
  fastener_pn :: "string option"
  link_qty :: int
  link_loctite :: "string option"
  link_torque :: "string option"
  totalFasteners :: nat

record swimlane =
  sl_grp :: grp
  sl_gi :: nat
  sl_startY :: real
  sl_height :: real
  sl_stepCount :: nat

record layout =
  nodes :: "node list"
  links :: "link list"
  swimlanes :: "swimlane list"
  sortedGroups :: "grp list"
  stepColX :: real
  groupColX :: real
  rootColX :: real
  dim_width :: real
  dim_height :: real

text \<open>The constants of config.js and of \<open>calculateTreeLayout\<close>.\<close>

definition NODE_WIDTH :: real where "NODE_WIDTH = 150"
definition NODE_HEIGHT :: real where "NODE_HEIGHT = 38"
definition PART_NODE_WIDTH :: real where "PART_NODE_WIDTH = 120"
definition VERTICAL_GAP :: real where "VERTICAL_GAP = 80"

definition topPad :: real where "topPad = 80"
definition headerH :: real where "headerH = 40"
definition swimPadY :: real where "swimPadY = 30"
definition swimGap :: real where "swimGap = 14"
definition stepGapY :: real where "stepGapY = VERTICAL_GAP"
definition partZone :: real where "partZone = 170"

text \<open>
  \<open>(Math.min.apply(null, ys) + Math.max.apply(null, ys)) / 2\<close>, which the code only
  evaluates under \<open>ys.length\<close>; \<open>None\<close> stands for the empty list, where the caller
  takes its fallback.
\<close>

fun midRange :: "real list \<Rightarrow> real option" where
  "midRange [] = None"
| "midRange (v # vs) = Some ((fold min vs v + fold max vs v) / 2)"

text \<open>The accumulators of the \<open>forEach\<close> over the filtered groups.\<close>

record acc =
  acc_nodes :: "node list"
  acc_links :: "link list"
  acc_swimlanes :: "swimlane list"
  curY :: real

definition stepNode :: "real \<Rightarrow> real \<Rightarrow> grp \<Rightarrow> nat \<times> step \<Rightarrow> node" where
  "stepNode stepColX' swimStartY g p =
     (let si = fst p; st = snd p
      in \<lparr> node_id = StepNode (step_id st), dbId = Some (step_id st),
           node_x = stepColX',
           node_y = (case step_y st of Some v \<Rightarrow> v
                     | None \<Rightarrow> swimStartY + swimPadY + real si * stepGapY),
           node_w = NODE_WIDTH, node_h = NODE_HEIGHT,
           node_label = step_label st, groupId = Some (grp_id g),
           isStep = True, isGroup = False, isRoot = False \<rparr>)"

definition stepLink :: "fast list \<Rightarrow> grp \<Rightarrow> step \<Rightarrow> link" where
  "stepLink fs g st =
     (let sf = filter (\<lambda>f. fast_step_id f = step_id st) fs;
          first = (case sf of [] \<Rightarrow> None | f # _ \<Rightarrow> Some f)
      in \<lparr> sourceId = StepNode (step_id st), targetId = GroupNode (grp_id g),
           link_type = StepToGroup, stepDbId = Some (step_id st),
           labelPos = Some (case label_position st of Some t \<Rightarrow> t | None \<Rightarrow> 1 / 2),
           fastener_pn = (case first of None \<Rightarrow> None
                          | Some f \<Rightarrow> if truthy (pn f) then pn f else None),
           link_qty = (case first of None \<Rightarrow> 0
                       | Some f \<Rightarrow> (case qty f of None \<Rightarrow> 0 | Some q \<Rightarrow> q)),
           link_loctite = (case first of None \<Rightarrow> None
                           | Some f \<Rightarrow> if truthy (loctite f) then loctite f else None),
           link_torque = (case first of None \<Rightarrow> None
                          | Some f \<Rightarrow> if truthy (torque f) then torque f else None),
           totalFasteners = length sf \<rparr>)"

definition layoutGroup :: "state \<Rightarrow> grp \<Rightarrow> nat \<Rightarrow> acc \<Rightarrow> acc" where
  "layoutGroup s g gi a =
     (let stepColX' = partZone + 50;
          groupColX' = stepColX' + gap1 s;
          gSteps = groupSteps (steps s) g;
          numSteps = length gSteps;
          maxParts = fold (\<lambda>st mx. max mx (length (filter (\<lambda>p. part_step_id p = step_id st) (parts s))))
                       gSteps 0;
          contentH = max (real_of_int (max (int numSteps) \<lceil>real maxParts * (7 / 10)\<rceil>) * stepGapY)
                         (stepGapY * (3 / 2));
          swimH = contentH + swimPadY * 2;
          swimStartY = curY a;
          allNodes1 = acc_nodes a @ map (stepNode stepColX' swimStartY g) (enumerate 0 gSteps);
          stepYs = map (\<lambda>st. case find (\<lambda>n. node_id n = StepNode (step_id st)) allNodes1 of
                               Some sn \<Rightarrow> node_y sn | None \<Rightarrow> 0) gSteps;
          groupY = (case midRange stepYs of Some m \<Rightarrow> m | None \<Rightarrow> swimStartY + swimH / 2);
          groupNode = \<lparr> node_id = GroupNode (grp_id g), dbId = None,
                        node_x = groupColX', node_y = groupY,
                        node_w = NODE_WIDTH + 20, node_h = NODE_HEIGHT + 8,
                        node_label = grp_label g, groupId = Some (grp_id g),
                        isStep = False, isGroup = True, isRoot = False \<rparr>;
          rootLink = \<lparr> sourceId = GroupNode (grp_id g), targetId = RootNode,
                       link_type = GroupToRoot, stepDbId = None, labelPos = None,
                       fastener_pn = None, link_qty = 0, link_loctite = None,
                       link_torque = None, totalFasteners = 0 \<rparr>
      in \<lparr> acc_nodes = allNodes1 @ [groupNode],
           acc_links = acc_links a @ map (stepLink (fasts s) g) gSteps @ [rootLink],
           acc_swimlanes = acc_swimlanes a @
             [\<lparr> sl_grp = g, sl_gi = gi, sl_startY = swimStartY, sl_height = swimH,
                sl_stepCount = numSteps \<rparr>],
           curY = swimStartY + swimH + swimGap \<rparr>)"

fun layoutLoop :: "state \<Rightarrow> nat \<Rightarrow> grp list \<Rightarrow> acc \<Rightarrow> acc" where
  "layoutLoop s gi [] a = a"
| "layoutLoop s gi (g # rest) a = layoutLoop s (Suc gi) rest (layoutGroup s g gi a)"

text \<open>
  The result is \<open>Inr None\<close> where the code returns \<open>null\<close>, and \<open>Inl TypeError\<close> where
  it throws: \<open>assy.tag\<close> is read for the root's label, and \<open>state.assy\<close> is \<open>null\<close>
  until an assembly is loaded.
\<close>

datatype js_error = TypeError

definition filterGroups :: "state \<Rightarrow> grp list" where
  "filterGroups s =
     (case visibleGroupIds s of
        Some vis \<Rightarrow> filter (\<lambda>g. grp_id g \<in> vis) (sortGroups (groups s))
      | None \<Rightarrow> sortGroups (groups s))"

definition calculateTreeLayout :: "state \<Rightarrow> js_error + layout option" where
  "calculateTreeLayout s =
     (if groups s = [] \<or> steps s = [] then Inr None
      else let filteredGroups = filterGroups s
       in if filteredGroups = [] then Inr None
      else let stepColX' = partZone + 50;
               groupColX' = stepColX' + gap1 s;
               rootColX' = groupColX' + gap2 s;
               a = layoutLoop s 0 filteredGroups
                     \<lparr> acc_nodes = [], acc_links = [], acc_swimlanes = [],
                       curY = topPad + headerH \<rparr>;
               groupYs = map node_y (filter isGroup (acc_nodes a));
               rootY = (case midRange groupYs of Some m \<Rightarrow> m | None \<Rightarrow> topPad + headerH)
       in (case assy s of
             None \<Rightarrow> Inl TypeError
           | Some asm \<Rightarrow>
               Inr (Some
                 \<lparr> nodes = acc_nodes a @
                     [\<lparr> node_id = RootNode, dbId = None, node_x = rootColX', node_y = rootY,
                        node_w = NODE_WIDTH + 40, node_h = NODE_HEIGHT + 16,
                        node_label = (case tag asm of None \<Rightarrow> ''HBD_assy''
                                      | Some t \<Rightarrow> if t = [] then ''HBD_assy'' else t),
                        groupId = None, isStep = False, isGroup = False, isRoot = True \<rparr>],
                   links = acc_links a, swimlanes = acc_swimlanes a,
                   sortedGroups = filteredGroups,
                   stepColX = stepColX', groupColX = groupColX', rootColX = rootColX',
                   dim_width = rootColX' + 250, dim_height = curY a + 50 \<rparr>)))"

section \<open>Rendering and dragging (graph.js, renderGraph)\<close>

text \<open>
  What \<open>renderGraph\<close> leaves behind for its drag handler: the node table \<open>_allNodes\<close>,
  the table \<open>window._eagleEyePositions\<close>, and the elements of the link layer and of the
  part layer with the attributes the handler reads and writes. A path is the list of
  the points its \<open>d\<close> attribute names. \<open>data-labelpos\<close> and \<open>data-offsety\<close> hold
  the number that was written to them.
\<close>

definition bezierPath :: "real \<Rightarrow> real \<Rightarrow> real \<Rightarrow> real \<Rightarrow> point list" where
  "bezierPath sx sy tx ty =
     (let mx = (sx + tx) / 2
      in [\<lparr> pt_x = sx, pt_y = sy \<rparr>, \<lparr> pt_x = mx, pt_y = sy \<rparr>,
          \<lparr> pt_x = mx, pt_y = ty \<rparr>, \<lparr> pt_x = tx, pt_y = ty \<rparr>])"

datatype label_line = PnLine | LoctiteLine | TorqueLine | MoreLine

record fast_label =
  data_stepid :: "ident option"
  data_labelpos :: real
  data_sx :: real
  data_sy :: real
  data_tx :: real
  data_ty :: real
  transform :: point
  label_lines :: "label_line list"

record link_group =
  data_src :: nid
  data_tgt :: nid
  link_path :: "point list"
  fast_label :: "fast_label option"

record part_link =
  pl_stepid :: "ident option"
  pl_d :: "point list"

record part_hex =
  ph_stepid :: "ident option"
  ph_partid :: ident
  ph_offsety :: real
  ph_transform :: point

record session =
  app :: state
  allNodes :: "node list"
  positions :: "(ident \<times> point) list option"
  linkGroups :: "link_group list"
  partLinks :: "part_link list"
  partHexes :: "part_hex list"

text \<open>The lines of a fastener label; only which lines there are is kept.\<close>

definition labelLines :: "link \<Rightarrow> label_line list" where
  "labelLines lk =
     (if truthy (fastener_pn lk) then [PnLine] else [])
     @ (if truthy (link_loctite lk) \<and> link_loctite lk \<noteq> Some ''---'' then [LoctiteLine] else [])
     @ (if truthy (link_torque lk) \<and> link_torque lk \<noteq> Some ''---'' then [TorqueLine] else [])
     @ (if totalFasteners lk > 1 then [MoreLine] else [])"

text \<open>
  One iteration of \<open>links.forEach\<close> in \<open>renderGraph\<close>: no element when an endpoint is
  not in the node table. Only step-to-group links get a label, and they always carry
  a label position.
\<close>

definition renderLink :: "state \<Rightarrow> node list \<Rightarrow> link \<Rightarrow> link_group option" where
  "renderLink s ns lk =
     (case (find (\<lambda>n. node_id n = sourceId lk) ns, find (\<lambda>n. node_id n = targetId lk) ns) of
        (Some src, Some tgt) \<Rightarrow>
          (let sx = node_x src + node_w src / 2; sy = node_y src;
               tx = node_x tgt - node_w tgt / 2; ty = node_y tgt
           in Some \<lparr> data_src = sourceId lk, data_tgt = targetId lk,
                     link_path = bezierPath sx sy tx ty,
                     fast_label =
                       (if showFastenerLabels s \<and> link_type lk = StepToGroup
                           \<and> totalFasteners lk > 0 \<and> labelLines lk \<noteq> []
                        then (case labelPos lk of
                                None \<Rightarrow> None
                              | Some t \<Rightarrow>
                                  Some \<lparr> data_stepid = stepDbId lk, data_labelpos = t,
                                         data_sx = sx, data_sy = sy, data_tx = tx, data_ty = ty,
                                         transform = bezierPoint t sx sy tx ty,
                                         label_lines = labelLines lk \<rparr>)
                        else None) \<rparr>)
      | _ \<Rightarrow> None)"

text \<open>The part layer: for each step node with parts, one link and one hexagon per part.\<close>

definition partPoint :: "node \<Rightarrow> nat \<Rightarrow> nat \<Rightarrow> point" where
  "partPoint nd n ix =
     \<lparr> pt_x = node_x nd - node_w nd / 2 - PART_NODE_WIDTH / 2 - 30,
       pt_y = node_y nd - (real_of_int (int n - 1) * 34) / 2 + real ix * 34 \<rparr>"

definition partLinkPath :: "real \<Rightarrow> real \<Rightarrow> node \<Rightarrow> point list" where
  "partLinkPath px py nd =
     [\<lparr> pt_x = px + PART_NODE_WIDTH / 2, pt_y = py \<rparr>,
      \<lparr> pt_x = px + PART_NODE_WIDTH / 2 + 15, pt_y = py \<rparr>,
      \<lparr> pt_x = node_x nd - node_w nd / 2 - 15, pt_y = node_y nd \<rparr>,
      \<lparr> pt_x = node_x nd - node_w nd / 2, pt_y = node_y nd \<rparr>]"

definition nodeParts :: "state \<Rightarrow> node \<Rightarrow> part list" where
  "nodeParts s nd = (case dbId nd of None \<Rightarrow> [] | Some k \<Rightarrow> stepParts (parts s) k)"

definition renderPartLinks :: "state \<Rightarrow> node \<Rightarrow> part_link list" where
  "renderPartLinks s nd =
     (let sp = nodeParts s nd
      in map (\<lambda>(ix, p). let pp = partPoint nd (length sp) ix
                        in \<lparr> pl_stepid = dbId nd, pl_d = partLinkPath (pt_x pp) (pt_y pp) nd \<rparr>)
             (enumerate 0 sp))"

definition renderPartHexes :: "state \<Rightarrow> node \<Rightarrow> part_hex list" where
  "renderPartHexes s nd =
     (let sp = nodeParts s nd
      in map (\<lambda>(ix, p). let pp = partPoint nd (length sp) ix
                        in \<lparr> ph_stepid = dbId nd, ph_partid = part_id p,
                             ph_offsety = pt_y pp - node_y nd, ph_transform = pp \<rparr>)
             (enumerate 0 sp))"

text \<open>
  \<open>window._eagleEyePositions[n.dbId] = { x: n.x, y: n.y }\<close>: assigning a property
  replaces the entry of that key or adds one. Every step node carries its row's key.
\<close>

definition setPosition :: "node \<Rightarrow> (ident \<times> point) list \<Rightarrow> (ident \<times> point) list" where
  "setPosition n ps =
     (case dbId n of
        None \<Rightarrow> ps
      | Some k \<Rightarrow> AList.update k \<lparr> pt_x = node_x n, pt_y = node_y n \<rparr> ps)"

definition renderView :: "state \<Rightarrow> layout \<Rightarrow> session" where
  "renderView s l =
     \<lparr> app = s,
       allNodes = nodes l,
       positions = Some (fold setPosition (filter isStep (nodes l)) []),
       linkGroups = List.map_filter (renderLink s (nodes l)) (links l),
       partLinks = (if showPartNodes s
                    then concat (map (renderPartLinks s) (filter isStep (nodes l))) else []),
       partHexes = (if showPartNodes s
                    then concat (map (renderPartHexes s) (filter isStep (nodes l))) else []) \<rparr>"

text \<open>
  \<open>var o = arr.find(p); if (o) o.y = v\<close>: the first node that satisfies \<open>p\<close> is
  changed in place.
\<close>

fun updateFirst :: "('a \<Rightarrow> bool) \<Rightarrow> ('a \<Rightarrow> 'a) \<Rightarrow> 'a list \<Rightarrow> 'a list" where
  "updateFirst p f [] = []"
| "updateFirst p f (v # vs) = (if p v then f v # vs else v # updateFirst p f vs)"

definition sibYs :: "ident option \<Rightarrow> node list \<Rightarrow> real list" where
  "sibYs gid ns = map node_y (filter (\<lambda>n. isStep n \<and> groupId n = gid) ns)"

definition groupYs :: "node list \<Rightarrow> real list" where
  "groupYs ns = map node_y (filter isGroup ns)"

definition recenterGroup :: "ident option \<Rightarrow> node list \<Rightarrow> node list" where
  "recenterGroup gid ns =
     (case midRange (sibYs gid ns) of
        None \<Rightarrow> ns
      | Some m \<Rightarrow> updateFirst (\<lambda>n. isGroup n \<and> groupId n = gid) (\<lambda>n. n\<lparr>node_y := m\<rparr>) ns)"

definition recenterRoot :: "node list \<Rightarrow> node list" where
  "recenterRoot ns =
     (case midRange (groupYs ns) of
        None \<Rightarrow> ns
      | Some m \<Rightarrow> updateFirst isRoot (\<lambda>n. n\<lparr>node_y := m\<rparr>) ns)"

text \<open>
  The handler's loop over \<open>_allNodes\<close> has no \<open>break\<close>: it ends on the last node with
  the identifier. \<open>parseFloat(fl.attr('data-labelpos')) || 0.5\<close> takes \<open>0.5\<close> for
  a stored \<open>0\<close>.
\<close>

definition lastNode :: "nid \<Rightarrow> node list \<Rightarrow> node option" where
  "lastNode k ns = find (\<lambda>n. node_id n = k) (rev ns)"

definition dragLabel :: "real \<Rightarrow> real \<Rightarrow> real \<Rightarrow> real \<Rightarrow> fast_label \<Rightarrow> fast_label" where
  "dragLabel sx2 sy2 tx2 ty2 fl =
     (let t = (if data_labelpos fl = 0 then 1 / 2 else data_labelpos fl)
      in fl\<lparr> transform := bezierPoint t sx2 sy2 tx2 ty2,
             data_sx := sx2, data_sy := sy2, data_tx := tx2, data_ty := ty2 \<rparr>)"

definition dragLink :: "node list \<Rightarrow> link_group \<Rightarrow> link_group" where
  "dragLink ns lg =
     (case (lastNode (data_src lg) ns, lastNode (data_tgt lg) ns) of
        (Some src, Some tgt) \<Rightarrow>
          (let sx2 = node_x src + node_w src / 2; sy2 = node_y src;
               tx2 = node_x tgt - node_w tgt / 2; ty2 = node_y tgt
           in lg\<lparr> link_path := bezierPath sx2 sy2 tx2 ty2,
                  fast_label := map_option (dragLabel sx2 sy2 tx2 ty2) (fast_label lg) \<rparr>)
      | _ \<Rightarrow> lg)"

definition dragPartHex :: "node \<Rightarrow> part_hex \<Rightarrow> part_hex" where
  "dragPartHex d el =
     (if ph_stepid el \<noteq> dbId d then el
      else el\<lparr> ph_transform :=
                 \<lparr> pt_x = node_x d - node_w d / 2 - PART_NODE_WIDTH / 2 - 30,
                   pt_y = node_y d + ph_offsety el \<rparr> \<rparr>)"

fun dragPartLinks :: "node \<Rightarrow> real \<Rightarrow> nat \<Rightarrow> part_link list \<Rightarrow> part_link list" where
  "dragPartLinks d totalH pi2 [] = []"
| "dragPartLinks d totalH pi2 (el # els) =
     (if pl_stepid el \<noteq> dbId d then el # dragPartLinks d totalH pi2 els
      else el\<lparr> pl_d := partLinkPath (node_x d - node_w d / 2 - PART_NODE_WIDTH / 2 - 30)
                                     (node_y d - totalH / 2 + real pi2 * 34) d \<rparr>
           # dragPartLinks d totalH (Suc pi2) els)"

text \<open>
  The \<open>drag\<close> handler for the node \<open>d\<close> at index \<open>i\<close> of \<open>_allNodes\<close>, with
  \<open>event.y = newY\<close>. It is bound to step nodes only, so for any other index there is
  no event and nothing changes. \<open>d\<close> is an element of \<open>_allNodes\<close>: later reads of
  \<open>d\<close> see the table as updated so far. \<open>if (d.dbId)\<close> skips a key that is \<open>null\<close>
  or \<open>0\<close>.
\<close>

definition onDrag :: "nat \<Rightarrow> real \<Rightarrow> session \<Rightarrow> session" where
  "onDrag i newY s =
     (if i < length (allNodes s) \<and> isStep (allNodes s ! i) then
        (let ns1 = (allNodes s)[i := (allNodes s ! i)\<lparr>node_y := newY\<rparr>];
             pos1 = (case dbId (ns1 ! i) of
                       None \<Rightarrow> positions s
                     | Some k \<Rightarrow> if k = 0 then positions s
                                 else map_option (setPosition (ns1 ! i)) (positions s));
             ns2 = recenterGroup (groupId (ns1 ! i)) ns1;
             ns3 = recenterRoot ns2;
             d = ns3 ! i;
             sp = nodeParts (app s) d;
             totalH = real_of_int (int (length sp) - 1) * 34
         in \<lparr> app = (app s)\<lparr>layoutDirty := True\<rparr>,
              allNodes = ns3,
              positions = pos1,
              linkGroups = map (dragLink ns3) (linkGroups s),
              partLinks = (if showPartNodes (app s)
                           then dragPartLinks d totalH 0 (partLinks s) else partLinks s),
              partHexes = (if showPartNodes (app s)
                           then map (dragPartHex d) (partHexes s) else partHexes s) \<rparr>)
      else s)"

text \<open>
  \<open>handleSave\<close>: nothing happens without a position table; otherwise the positions
  are saved, the flag is cleared and the toast reports the count.
\<close>

definition handleSave :: "(ident \<times> point \<Rightarrow> bool) \<Rightarrow> session \<Rightarrow> session \<times> nat option" where
  "handleSave err s =
     (case positions s of
        None \<Rightarrow> (s, None)
      | Some pos \<Rightarrow>
          (let count = savePositions err pos
           in (s\<lparr> app := (app s)\<lparr>layoutDirty := False\<rparr> \<rparr>, Some count)))"

section \<open>Notions used to state the properties\<close>

text \<open>A sequence of drag events, each on the node at an index with a new \<open>y\<close>.\<close>

definition dragAll :: "(nat \<times> real) list \<Rightarrow> session \<Rightarrow> session" where
  "dragAll ds v = fold (\<lambda>(i, newY). onDrag i newY) ds v"

text \<open>
  The kind flags of a node table exclude each other, as in every table that
  \<open>calculateTreeLayout\<close> builds.
\<close>

definition kindsOk :: "node list \<Rightarrow> bool" where
  "kindsOk ns \<longleftrightarrow>
     list_all (\<lambda>n. (isStep n \<longrightarrow> \<not> isGroup n \<and> \<not> isRoot n) \<and> (isGroup n \<longrightarrow> \<not> isRoot n)) ns"

text \<open>One group node for each group and at most one root.\<close>

definition wellFormed :: "node list \<Rightarrow> bool" where
  "wellFormed ns \<longleftrightarrow>
     kindsOk ns \<and> distinct (map groupId (filter isGroup ns)) \<and> length (filter isRoot ns) \<le> 1"

text \<open>
  Every group node with a member step sits at the middle of its steps' range, and the
  root at the middle of the group nodes' range.
\<close>

definition centred :: "node list \<Rightarrow> bool" where
  "centred ns \<longleftrightarrow>
     list_all (\<lambda>g. isGroup g \<longrightarrow> sibYs (groupId g) ns \<noteq> []
                 \<longrightarrow> node_y g = (Min (set (sibYs (groupId g) ns)) + Max (set (sibYs (groupId g) ns))) / 2) ns
     \<and> list_all (\<lambda>r. isRoot r \<longrightarrow> groupYs ns \<noteq> []
                 \<longrightarrow> node_y r = (Min (set (groupYs ns)) + Max (set (groupYs ns))) / 2) ns"

text \<open>A node without its \<open>y\<close>: what dragging never changes.\<close>

definition frame :: "node \<Rightarrow> node" where
  "frame n = n\<lparr>node_y := 0\<rparr>"

definition visible :: "state \<Rightarrow> grp \<Rightarrow> bool" where
  "visible s g = (case visibleGroupIds s of None \<Rightarrow> True | Some vis \<Rightarrow> grp_id g \<in> vis)"

text \<open>
  The pieces of one iteration of the layout loop, named for the proofs: the height of
  the band, the step nodes it adds, the \<open>y\<close> values it looks up for them, and the
  group node.
\<close>

definition swimHeight :: "state \<Rightarrow> grp \<Rightarrow> real" where
  "swimHeight s g =
     max (real_of_int (max (int (length (groupSteps (steps s) g)))
            \<lceil>real (fold (\<lambda>st mx. max mx (length (filter (\<lambda>p. part_step_id p = step_id st) (parts s))))
                       (groupSteps (steps s) g) 0) * (7 / 10)\<rceil>) * stepGapY)
         (stepGapY * (3 / 2)) + swimPadY * 2"

definition newStepNodes :: "state \<Rightarrow> grp \<Rightarrow> real \<Rightarrow> node list" where
  "newStepNodes s g y0 = map (stepNode (partZone + 50) y0 g) (enumerate 0 (groupSteps (steps s) g))"

definition lookupYs :: "state \<Rightarrow> grp \<Rightarrow> node list \<Rightarrow> real list" where
  "lookupYs s g ns = map (\<lambda>st. case find (\<lambda>n. node_id n = StepNode (step_id st)) ns of
                               Some sn \<Rightarrow> node_y sn | None \<Rightarrow> 0) (groupSteps (steps s) g)"

definition newGroupNode :: "state \<Rightarrow> grp \<Rightarrow> node list \<Rightarrow> real \<Rightarrow> node" where
  "newGroupNode s g ns y0 =
     \<lparr> node_id = GroupNode (grp_id g), dbId = None,
       node_x = partZone + 50 + gap1 s,
       node_y = (case midRange (lookupYs s g ns) of Some m \<Rightarrow> m | None \<Rightarrow> y0 + swimHeight s g / 2),
       node_w = NODE_WIDTH + 20, node_h = NODE_HEIGHT + 8,
       node_label = grp_label g, groupId = Some (grp_id g),
       isStep = False, isGroup = True, isRoot = False \<rparr>"

text \<open>
  The invariant of the layout loop once the groups with identifiers in \<open>done\<close> are
  processed: step nodes are steps of those groups in the step column, all other nodes
  are their group nodes, and every group node with a step is centred on its steps.
\<close>

definition layoutInv :: "state \<Rightarrow> ident set \<Rightarrow> node list \<Rightarrow> bool" where
  "layoutInv s done ns \<longleftrightarrow>
     (\<forall>n \<in> set ns. isStep n \<longrightarrow> \<not> isGroup n \<and> \<not> isRoot n \<and> node_x n = partZone + 50
        \<and> (\<exists>st \<in> set (steps s). node_id n = StepNode (step_id st)
              \<and> groupId n = Some (group_id st) \<and> group_id st \<in> done))
     \<and> (\<forall>n \<in> set ns. \<not> isStep n \<longrightarrow> isGroup n \<and> \<not> isRoot n
        \<and> (\<forall>k. node_id n \<noteq> StepNode k) \<and> groupId n \<in> Some ` done)
     \<and> (\<forall>g \<in> set ns. isGroup g \<longrightarrow> sibYs (groupId g) ns \<noteq> []
        \<longrightarrow> midRange (sibYs (groupId g) ns) = Some (node_y g))"

text \<open>The accumulators after the loop over the filtered groups.\<close>

definition layoutAcc :: "state \<Rightarrow> acc" where
  "layoutAcc s = layoutLoop s 0 (filterGroups s)
     \<lparr> acc_nodes = [], acc_links = [], acc_swimlanes = [], curY = topPad + headerH \<rparr>"

text \<open>The node table after one drag event on a step node.\<close>

definition dragNodes :: "nat \<Rightarrow> real \<Rightarrow> node list \<Rightarrow> node list" where
  "dragNodes i newY ns =
     recenterRoot (recenterGroup (groupId (ns ! i)) (ns[i := (ns ! i)\<lparr>node_y := newY\<rparr>]))"

text \<open>
  The centring property in the form the code computes it, with \<^const>\<open>midRange\<close>.
\<close>

definition centredMid :: "node list \<Rightarrow> bool" where
  "centredMid ns \<longleftrightarrow>
     (\<forall>g \<in> set ns. isGroup g \<longrightarrow> sibYs (groupId g) ns \<noteq> []
        \<longrightarrow> midRange (sibYs (groupId g) ns) = Some (node_y g))
     \<and> (\<forall>r \<in> set ns. isRoot r \<longrightarrow> groupYs ns \<noteq> []
        \<longrightarrow> midRange (groupYs ns) = Some (node_y r))"

section \<open>Example data\<close>

text \<open>
  A small assembly used to run the definitions: two groups with the same sort key, the
  one with the larger identifier first; three steps, one of them with a fastener and the
  stored label position \<open>0\<close>; one part.
\<close>

definition exGroups :: "grp list" where
  "exGroups = [\<lparr> grp_id = 2, grp_label = ''B'', grp_sort_order = Some 1 \<rparr>,
               \<lparr> grp_id = 1, grp_label = ''A'', grp_sort_order = Some 1 \<rparr>]"

definition exSteps :: "step list" where
  "exSteps = [\<lparr> step_id = 10, group_id = 1, step_label = ''a1'', step_sort_order = Some 1,
                 step_y = None, label_position = None \<rparr>,
              \<lparr> step_id = 11, group_id = 1, step_label = ''a2'', step_sort_order = Some 2,
                 step_y = None, label_position = None \<rparr>,
              \<lparr> step_id = 20, group_id = 2, step_label = ''b1'', step_sort_order = None,
                 step_y = None, label_position = Some 0 \<rparr>]"

definition exState :: state where
  "exState =
     \<lparr> assy = Some \<lparr> assy_id = 7, tag = Some ''HBD_assy'' \<rparr>,
       groups = exGroups, steps = exSteps,
       parts = [\<lparr> part_id = 100, part_step_id = 10, part_sort_order = Some 1 \<rparr>],
       fasts = [\<lparr> fast_step_id = 20, pn = Some ''M6'', qty = Some 2, loctite = None,
                  torque = None \<rparr>],
       visibleGroupIds = None, gap1 = 300, gap2 = 240,
       showPartNodes = True, showFastenerLabels = True, layoutDirty = False \<rparr>"

text \<open>The layout of the example, and what \<open>renderGraph\<close> makes of it.\<close>

definition exNodes :: "node list" where
  "exNodes =
     [\<lparr> node_id = StepNode 20, dbId = Some 20, node_x = 220, node_y = 150, node_w = 150,
         node_h = 38, node_label = ''b1'', groupId = Some 2,
         isStep = True, isGroup = False, isRoot = False \<rparr>,
      \<lparr> node_id = GroupNode 2, dbId = None, node_x = 520, node_y = 150, node_w = 170,
         node_h = 46, node_label = ''B'', groupId = Some 2,
         isStep = False, isGroup = True, isRoot = False \<rparr>,
      \<lparr> node_id = StepNode 10, dbId = Some 10, node_x = 220, node_y = 344, node_w = 150,
         node_h = 38, node_label = ''a1'', groupId = Some 1,
         isStep = True, isGroup = False, isRoot = False \<rparr>,
      \<lparr> node_id = StepNode 11, dbId = Some 11, node_x = 220, node_y = 424, node_w = 150,
         node_h = 38, node_label = ''a2'', groupId = Some 1,
         isStep = True, isGroup = False, isRoot = False \<rparr>,
      \<lparr> node_id = GroupNode 1, dbId = None, node_x = 520, node_y = 384, node_w = 170,
         node_h = 46, node_label = ''A'', groupId = Some 1,
         isStep = False, isGroup = True, isRoot = False \<rparr>,
      \<lparr> node_id = RootNode, dbId = None, node_x = 760, node_y = 267, node_w = 190,
         node_h = 54, node_label = ''HBD_assy'', groupId = None,
         isStep = False, isGroup = False, isRoot = True \<rparr>]"

definition exLinks :: "link list" where
  "exLinks =
     [\<lparr> sourceId = StepNode 20, targetId = GroupNode 2, link_type = StepToGroup,
         stepDbId = Some 20, labelPos = Some 0, fastener_pn = Some ''M6'', link_qty = 2,
         link_loctite = None, link_torque = None, totalFasteners = 1 \<rparr>,
      \<lparr> sourceId = GroupNode 2, targetId = RootNode, link_type = GroupToRoot,
         stepDbId = None, labelPos = None, fastener_pn = None, link_qty = 0,
         link_loctite = None, link_torque = None, totalFasteners = 0 \<rparr>,
      \<lparr> sourceId = StepNode 10, targetId = GroupNode 1, link_type = StepToGroup,
         stepDbId = Some 10, labelPos = Some (1 / 2), fastener_pn = None, link_qty = 0,
         link_loctite = None, link_torque = None, totalFasteners = 0 \<rparr>,
      \<lparr> sourceId = StepNode 11, targetId = GroupNode 1, link_type = StepToGroup,
         stepDbId = Some 11, labelPos = Some (1 / 2), fastener_pn = None, link_qty = 0,
         link_loctite = None, link_torque = None, totalFasteners = 0 \<rparr>,
      \<lparr> sourceId = GroupNode 1, targetId = RootNode, link_type = GroupToRoot,
         stepDbId = None, labelPos = None, fastener_pn = None, link_qty = 0,
         link_loctite = None, link_torque = None, totalFasteners = 0 \<rparr>]"

definition exLayout :: layout where
  "exLayout =
     \<lparr> nodes = exNodes, links = exLinks,
       swimlanes =
         [\<lparr> sl_grp = \<lparr> grp_id = 2, grp_label = ''B'', grp_sort_order = Some 1 \<rparr>, sl_gi = 0,
             sl_startY = 120, sl_height = 180, sl_stepCount = 1 \<rparr>,
          \<lparr> sl_grp = \<lparr> grp_id = 1, grp_label = ''A'', grp_sort_order = Some 1 \<rparr>, sl_gi = 1,
             sl_startY = 314, sl_height = 220, sl_stepCount = 2 \<rparr>],
       sortedGroups = exGroups,
       stepColX = 220, groupColX = 520, rootColX = 760, dim_width = 1010, dim_height = 598 \<rparr>"

text \<open>The example with a third group that has no steps.\<close>

definition exState2 :: state where
  "exState2 = exState\<lparr> groups := exGroups @ [\<lparr> grp_id = 3, grp_label = ''C'', grp_sort_order = Some 5 \<rparr>] \<rparr>"

definition exView :: session where
  "exView = renderView exState exLayout"

section \<open>Properties of the geometry primitives\<close>









subsection \<open>The nearest-parameter search\<close>





















section \<open>Properties of the database module\<close>

subsection \<open>Link generation\<close>









lemma exGroups_sorted: "sortGroups exGroups = exGroups"
  by (simp add: sortGroups_def exGroups_def sortKey_def)

lemma exSteps_group_1: "groupSteps exSteps \<lparr> grp_id = 1, grp_label = ''A'', grp_sort_order = Some 1 \<rparr>
  = [\<lparr> step_id = 10, group_id = 1, step_label = ''a1'', step_sort_order = Some 1,
         step_y = None, label_position = None \<rparr>,
     \<lparr> step_id = 11, group_id = 1, step_label = ''a2'', step_sort_order = Some 2,
         step_y = None, label_position = None \<rparr>]"
  by (simp add: groupSteps_def exSteps_def sortKey_def)

lemma exSteps_group_2: "groupSteps exSteps \<lparr> grp_id = 2, grp_label = ''B'', grp_sort_order = Some 1 \<rparr>
  = [\<lparr> step_id = 20, group_id = 2, step_label = ''b1'', step_sort_order = None,
         step_y = None, label_position = Some 0 \<rparr>]"
  by (simp add: groupSteps_def exSteps_def sortKey_def)


subsection \<open>Saving positions\<close>

lemma fold_count:
  "fold (\<lambda>e count. if \<not> err e then count + 1 else count) es n
     = n + length (filter (\<lambda>e. \<not> err e) es)"
  by (induction es arbitrary: n) simp_all

lemma savePositions_count: "savePositions err es = length (filter (\<lambda>e. \<not> err e) es)"
  by (simp add: savePositions_def fold_count)


section \<open>Properties of the layout\<close>

lemma set_sortGroups: "set (sortGroups gs) = set gs"
  by (simp add: sortGroups_def)

lemma sortGroups_Nil: "sortGroups gs = [] \<longleftrightarrow> gs = []"
  by (metis set_sortGroups set_empty)

lemma filterGroups_empty:
  "filterGroups s = [] \<longleftrightarrow>
     (groups s = [] \<or> (\<exists>vis. visibleGroupIds s = Some vis \<and> (\<forall>g \<in> set (groups s). grp_id g \<notin> vis)))"
  by (cases "visibleGroupIds s")
     (auto simp: filterGroups_def filter_empty_conv set_sortGroups sortGroups_Nil)

text \<open>
  C8. The layout is \<open>null\<close> exactly when there are no groups, or no steps, or a filter
  is set that excludes every group; these cases never throw. In every other case, once
  an assembly is loaded, a layout is returned.
\<close>

theorem calculateTreeLayout_null_iff:
  "(calculateTreeLayout s = Inr None \<longleftrightarrow>
      (groups s = [] \<or> steps s = []
       \<or> (\<exists>vis. visibleGroupIds s = Some vis \<and> (\<forall>g \<in> set (groups s). grp_id g \<notin> vis))))
   \<and> (assy s \<noteq> None \<longrightarrow> calculateTreeLayout s \<noteq> Inr None
        \<longrightarrow> (\<exists>l. calculateTreeLayout s = Inr (Some l)))"
proof -
  have null: "calculateTreeLayout s = Inr None \<longleftrightarrow> (groups s = [] \<or> steps s = [] \<or> filterGroups s = [])"
    by (auto simp: calculateTreeLayout_def Let_def split: option.splits)
  have some: "\<exists>l. calculateTreeLayout s = Inr (Some l)"
    if "assy s \<noteq> None" "calculateTreeLayout s \<noteq> Inr None"
    using that by (auto simp: calculateTreeLayout_def Let_def split: option.splits if_splits)
  show ?thesis
    using null some filterGroups_empty [of s] by blast
qed


subsection \<open>One iteration of the layout loop\<close>

lemma layoutGroup_nodes:
  "acc_nodes (layoutGroup s g gi a)
     = acc_nodes a @ newStepNodes s g (curY a)
       @ [newGroupNode s g (acc_nodes a @ newStepNodes s g (curY a)) (curY a)]"
  unfolding layoutGroup_def Let_def newStepNodes_def newGroupNode_def lookupYs_def swimHeight_def
  by simp

lemma layoutGroup_swimlanes:
  "acc_swimlanes (layoutGroup s g gi a)
     = acc_swimlanes a @ [\<lparr> sl_grp = g, sl_gi = gi, sl_startY = curY a,
          sl_height = swimHeight s g, sl_stepCount = length (groupSteps (steps s) g) \<rparr>]"
  unfolding layoutGroup_def Let_def swimHeight_def
  by simp

lemma layoutGroup_curY:
  "curY (layoutGroup s g gi a) = curY a + swimHeight s g + swimGap"
  unfolding layoutGroup_def Let_def swimHeight_def
  by simp

lemma swimHeight_pos: "180 \<le> swimHeight s g"
  unfolding swimHeight_def stepGapY_def VERTICAL_GAP_def swimPadY_def
  by simp

lemma distinct_map_sort_key:
  assumes "distinct (map f xs)"
  shows "distinct (map f (sort_key k xs))"
proof -
  have "card (set (map f (sort_key k xs))) = card (set (map f xs))" by simp
  also have "\<dots> = length (map f xs)" using assms by (rule distinct_card)
  also have "\<dots> = length (map f (sort_key k xs))" by simp
  finally show ?thesis by (rule card_distinct)
qed

lemma distinct_groupSteps:
  "distinct (map step_id ss) \<Longrightarrow> distinct (map step_id (groupSteps ss g))"
  unfolding groupSteps_def by (intro distinct_map_sort_key distinct_map_filter)

lemma set_groupSteps: "set (groupSteps ss g) = {st \<in> set ss. group_id st = grp_id g}"
  by (auto simp: groupSteps_def)

lemma find_append_skip:
  "(\<And>n. n \<in> set old \<Longrightarrow> \<not> P n) \<Longrightarrow> find P (old @ xs) = find P xs"
  by (induction old) simp_all

lemma find_map_option: "find P (map h zs) = map_option h (find (\<lambda>z. P (h z)) zs)"
  by (induction zs) simp_all

lemma find_distinct_key:
  "distinct (map f zs) \<Longrightarrow> z \<in> set zs \<Longrightarrow> find (\<lambda>z'. f z' = f z) zs = Some z"
  by (induction zs) (auto simp: image_iff)

lemma stepNode_simps [simp]:
  "node_id (stepNode c y0 g p) = StepNode (step_id (snd p))"
  "dbId (stepNode c y0 g p) = Some (step_id (snd p))"
  "node_x (stepNode c y0 g p) = c"
  "groupId (stepNode c y0 g p) = Some (grp_id g)"
  "isStep (stepNode c y0 g p)" "\<not> isGroup (stepNode c y0 g p)" "\<not> isRoot (stepNode c y0 g p)"
  by (simp_all add: stepNode_def Let_def)

lemma newGroupNode_simps [simp]:
  "node_id (newGroupNode s g ns y0) = GroupNode (grp_id g)"
  "groupId (newGroupNode s g ns y0) = Some (grp_id g)"
  "\<not> isStep (newGroupNode s g ns y0)" "isGroup (newGroupNode s g ns y0)"
  "\<not> isRoot (newGroupNode s g ns y0)"
  by (simp_all add: newGroupNode_def)

lemma map_via_enumerate: "map G xs = map (\<lambda>z. G (snd z)) (enumerate k xs)"
proof -
  have "map (\<lambda>z. G (snd z)) (enumerate k xs) = map G (map snd (enumerate k xs))"
    by (simp only: map_map comp_def)
  then show ?thesis by simp
qed

lemma lookupYs_new:
  assumes d: "distinct (map step_id (groupSteps (steps s) g))"
    and old: "\<And>n st. n \<in> set old \<Longrightarrow> st \<in> set (groupSteps (steps s) g)
                \<Longrightarrow> node_id n \<noteq> StepNode (step_id st)"
  shows "lookupYs s g (old @ newStepNodes s g y0) = map node_y (newStepNodes s g y0)"
proof -
  let ?gs = "groupSteps (steps s) g"
  let ?zs = "enumerate 0 ?gs"
  let ?h = "stepNode (partZone + 50) y0 g"
  have "map (\<lambda>z. step_id (snd z)) ?zs = map step_id (map snd ?zs)"
    by (simp only: map_map comp_def)
  then have dz: "distinct (map (\<lambda>z. step_id (snd z)) ?zs)"
    using d by (simp only: map_snd_enumerate)
  have one: "find (\<lambda>n. node_id n = StepNode (step_id (snd z))) (old @ map ?h ?zs) = Some (?h z)"
    if z: "z \<in> set ?zs" for z
  proof -
    have "snd z \<in> set ?gs" using z by (metis in_set_zipE enumerate_eq_zip prod.collapse)
    then have "find (\<lambda>n. node_id n = StepNode (step_id (snd z))) (old @ map ?h ?zs)
        = find (\<lambda>n. node_id n = StepNode (step_id (snd z))) (map ?h ?zs)"
      using old by (intro find_append_skip) blast
    also have "\<dots> = map_option ?h (find (\<lambda>z'. step_id (snd z') = step_id (snd z)) ?zs)"
      by (simp add: find_map_option)
    also have "\<dots> = Some (?h z)"
      using find_distinct_key [OF dz z] by simp
    finally show ?thesis .
  qed
  have "lookupYs s g (old @ newStepNodes s g y0)
      = map (\<lambda>z. case find (\<lambda>n. node_id n = StepNode (step_id (snd z))) (old @ map ?h ?zs) of
                     Some sn \<Rightarrow> node_y sn | None \<Rightarrow> 0) ?zs"
    unfolding lookupYs_def newStepNodes_def
    by (rule map_via_enumerate)
  also have "\<dots> = map (\<lambda>z. node_y (?h z)) ?zs"
    by (rule map_cong [OF refl]) (simp add: one)
  finally show ?thesis by (simp add: newStepNodes_def)
qed

lemma midRange_Some: "ys \<noteq> [] \<Longrightarrow> \<exists>m. midRange ys = Some m"
proof (cases ys)
  case Nil
  assume "ys \<noteq> []"
  with Nil show ?thesis by simp
next
  case (Cons v vs)
  then show ?thesis by (intro exI [of _ "(fold min vs v + fold max vs v) / 2"]) simp
qed

lemma sibYs_append [simp]: "sibYs gid (xs @ ys) = sibYs gid xs @ sibYs gid ys"
  by (simp add: sibYs_def)

lemma sibYs_none: "(\<And>n. n \<in> set ns \<Longrightarrow> isStep n \<Longrightarrow> groupId n \<noteq> gid) \<Longrightarrow> sibYs gid ns = []"
  by (auto simp: sibYs_def filter_empty_conv)

lemma in_newStepNodes:
  assumes "n \<in> set (newStepNodes s g y0)"
  obtains p where "snd p \<in> set (groupSteps (steps s) g)" "n = stepNode (partZone + 50) y0 g p"
proof -
  from assms obtain p where p: "p \<in> set (enumerate 0 (groupSteps (steps s) g))"
    and n: "n = stepNode (partZone + 50) y0 g p"
    by (auto simp: newStepNodes_def)
  from p have "snd p \<in> set (groupSteps (steps s) g)"
    by (metis in_set_zipE enumerate_eq_zip prod.collapse)
  with n that show ?thesis by blast
qed

lemma sibYs_newStepNodes:
  "sibYs gid (newStepNodes s g y0)
     = (if gid = Some (grp_id g) then map node_y (newStepNodes s g y0) else [])"
proof (cases "gid = Some (grp_id g)")
  case True
  have "filter (\<lambda>n. isStep n \<and> groupId n = gid) (newStepNodes s g y0) = newStepNodes s g y0"
    by (rule filter_True) (auto simp: True elim!: in_newStepNodes)
  then show ?thesis by (simp add: sibYs_def True)
next
  case False
  have "sibYs gid (newStepNodes s g y0) = []"
    by (rule sibYs_none) (use False in \<open>auto elim!: in_newStepNodes\<close>)
  then show ?thesis using False by simp
qed

lemma sibYs_single [simp]: "\<not> isStep n \<Longrightarrow> sibYs gid [n] = []"
  by (simp add: sibYs_def)

lemma layoutGroup_inv:
  assumes ds: "distinct (map step_id (steps s))"
    and fresh: "grp_id g \<notin> done"
    and inv: "layoutInv s done (acc_nodes a)"
  shows "layoutInv s (insert (grp_id g) done) (acc_nodes (layoutGroup s g gi a))"
proof -
  let ?old = "acc_nodes a"
  let ?new = "newStepNodes s g (curY a)"
  let ?gn = "newGroupNode s g (?old @ ?new) (curY a)"
  let ?gs = "groupSteps (steps s) g"
  have nodes: "acc_nodes (layoutGroup s g gi a) = ?old @ ?new @ [?gn]"
    by (rule layoutGroup_nodes)
  have oldStep: "\<not> isGroup n \<and> \<not> isRoot n \<and> node_x n = partZone + 50
        \<and> (\<exists>st \<in> set (steps s). node_id n = StepNode (step_id st)
              \<and> groupId n = Some (group_id st) \<and> group_id st \<in> done)"
    if "n \<in> set ?old" "isStep n" for n
    using inv that unfolding layoutInv_def by blast
  have oldOther: "isGroup n \<and> \<not> isRoot n \<and> (\<forall>k. node_id n \<noteq> StepNode k) \<and> groupId n \<in> Some ` done"
    if "n \<in> set ?old" "\<not> isStep n" for n
    using inv that unfolding layoutInv_def by blast
  have oldCentred: "midRange (sibYs (groupId n) ?old) = Some (node_y n)"
    if "n \<in> set ?old" "isGroup n" "sibYs (groupId n) ?old \<noteq> []" for n
    using inv that unfolding layoutInv_def by blast
  have newStep: "\<exists>st \<in> set (steps s). node_id n = StepNode (step_id st)
              \<and> groupId n = Some (group_id st) \<and> group_id st = grp_id g"
    if "n \<in> set ?new" for n
    using that by (auto elim!: in_newStepNodes simp: set_groupSteps)
  have newFlags: "isStep n \<and> \<not> isGroup n \<and> \<not> isRoot n \<and> node_x n = partZone + 50"
    if "n \<in> set ?new" for n
    using that by (auto elim!: in_newStepNodes)
  have oldIds: "node_id n \<noteq> StepNode (step_id st)"
    if n: "n \<in> set ?old" and st: "st \<in> set ?gs" for n st
  proof (cases "isStep n")
    case True
    from oldStep [OF n True] obtain st' where st': "st' \<in> set (steps s)"
      "node_id n = StepNode (step_id st')" "group_id st' \<in> done" by blast
    from st have st_in: "st \<in> set (steps s)" "group_id st = grp_id g"
      by (simp_all add: set_groupSteps)
    show ?thesis
    proof
      assume "node_id n = StepNode (step_id st)"
      with st' have "step_id st' = step_id st" by simp
      with ds st' st_in have "st' = st" by (meson distinct_map inj_onD)
      with st' st_in fresh show False by simp
    qed
  next
    case False
    with oldOther [OF n] show ?thesis by blast
  qed
  have look: "lookupYs s g (?old @ ?new) = map node_y ?new"
    by (rule lookupYs_new [OF distinct_groupSteps [OF ds]]) (rule oldIds)
  have oldSib: "sibYs (Some (grp_id g)) ?old = []"
  proof (rule sibYs_none)
    fix n assume "n \<in> set ?old" "isStep n"
    from oldStep [OF this] fresh show "groupId n \<noteq> Some (grp_id g)" by auto
  qed
  have p1: "\<forall>n \<in> set (?old @ ?new @ [?gn]). isStep n \<longrightarrow> \<not> isGroup n \<and> \<not> isRoot n
        \<and> node_x n = partZone + 50
        \<and> (\<exists>st \<in> set (steps s). node_id n = StepNode (step_id st)
              \<and> groupId n = Some (group_id st) \<and> group_id st \<in> insert (grp_id g) done)"
  proof (intro ballI impI)
    fix n assume n: "n \<in> set (?old @ ?new @ [?gn])" and st: "isStep n"
    from n st consider "n \<in> set ?old" | "n \<in> set ?new" by auto
    then show "\<not> isGroup n \<and> \<not> isRoot n \<and> node_x n = partZone + 50
        \<and> (\<exists>st \<in> set (steps s). node_id n = StepNode (step_id st)
              \<and> groupId n = Some (group_id st) \<and> group_id st \<in> insert (grp_id g) done)"
    proof cases
      case 1
      from oldStep [OF 1 st] show ?thesis by blast
    next
      case 2
      from newStep [OF 2] newFlags [OF 2] show ?thesis by auto
    qed
  qed
  have p2: "\<forall>n \<in> set (?old @ ?new @ [?gn]). \<not> isStep n \<longrightarrow> isGroup n \<and> \<not> isRoot n
        \<and> (\<forall>k. node_id n \<noteq> StepNode k) \<and> groupId n \<in> Some ` insert (grp_id g) done"
  proof (intro ballI impI)
    fix n assume n: "n \<in> set (?old @ ?new @ [?gn])" and st: "\<not> isStep n"
    from n st newFlags consider "n \<in> set ?old" | "n = ?gn" by auto
    then show "isGroup n \<and> \<not> isRoot n
        \<and> (\<forall>k. node_id n \<noteq> StepNode k) \<and> groupId n \<in> Some ` insert (grp_id g) done"
    proof cases
      case 1
      from oldOther [OF 1 st] show ?thesis by blast
    next
      case 2
      then show ?thesis by simp
    qed
  qed
  have p3: "\<forall>n \<in> set (?old @ ?new @ [?gn]). isGroup n
        \<longrightarrow> sibYs (groupId n) (?old @ ?new @ [?gn]) \<noteq> []
        \<longrightarrow> midRange (sibYs (groupId n) (?old @ ?new @ [?gn])) = Some (node_y n)"
  proof (intro ballI impI)
    fix n assume n: "n \<in> set (?old @ ?new @ [?gn])" and gr: "isGroup n"
      and ne: "sibYs (groupId n) (?old @ ?new @ [?gn]) \<noteq> []"
    from n gr newFlags consider "n \<in> set ?old" | "n = ?gn" by auto
    then show "midRange (sibYs (groupId n) (?old @ ?new @ [?gn])) = Some (node_y n)"
    proof cases
      case 1
      have "\<not> isStep n" using oldStep [OF 1] gr by blast
      from oldOther [OF 1 this] fresh have "groupId n \<noteq> Some (grp_id g)" by auto
      then have same: "sibYs (groupId n) (?old @ ?new @ [?gn]) = sibYs (groupId n) ?old"
        by (simp add: sibYs_newStepNodes)
      show ?thesis using oldCentred [OF 1 gr] ne unfolding same by simp
    next
      case 2
      have sib: "sibYs (groupId n) (?old @ ?new @ [?gn]) = map node_y ?new"
        by (simp add: 2 sibYs_newStepNodes oldSib)
      have "node_y n = (case midRange (map node_y ?new) of Some m \<Rightarrow> m
                         | None \<Rightarrow> curY a + swimHeight s g / 2)"
        by (simp add: 2 newGroupNode_def look)
      moreover from ne have "map node_y ?new \<noteq> []" unfolding sib .
      then obtain m where "midRange (map node_y ?new) = Some m"
        using midRange_Some by blast
      ultimately show ?thesis unfolding sib by simp
    qed
  qed
  show ?thesis
    unfolding layoutInv_def nodes using p1 p2 p3 by blast
qed

lemma midRange_Min_Max:
  "ys \<noteq> [] \<Longrightarrow> midRange ys = Some ((Min (set ys) + Max (set ys)) / 2)"
  by (cases ys) (simp_all only: midRange.simps Min.set_eq_fold Max.set_eq_fold, simp)

lemma layoutLoop_inv:
  assumes ds: "distinct (map step_id (steps s))"
  shows "distinct (map grp_id gs) \<Longrightarrow> grp_id ` set gs \<inter> done = {}
    \<Longrightarrow> layoutInv s done (acc_nodes a)
    \<Longrightarrow> layoutInv s (done \<union> grp_id ` set gs) (acc_nodes (layoutLoop s gi gs a))"
proof (induction gs arbitrary: gi a "done")
  case Nil
  then show ?case by simp
next
  case (Cons g gs)
  have fresh: "grp_id g \<notin> done" using Cons.prems(2) by auto
  have step: "layoutInv s (insert (grp_id g) done) (acc_nodes (layoutGroup s g gi a))"
    by (rule layoutGroup_inv [OF ds fresh Cons.prems(3)])
  have "grp_id ` set gs \<inter> insert (grp_id g) done = {}"
    using Cons.prems(1,2) by auto
  from Cons.IH [OF _ this step] Cons.prems(1)
  have "layoutInv s (insert (grp_id g) done \<union> grp_id ` set gs)
          (acc_nodes (layoutLoop s (Suc gi) gs (layoutGroup s g gi a)))"
    by simp
  then show ?case by (simp add: Un_commute insert_commute)
qed

lemma filter_isGroup_new [simp]: "filter isGroup (newStepNodes s g y0) = []"
  by (auto simp: filter_empty_conv elim!: in_newStepNodes)

lemma filter_isRoot_new [simp]: "filter isRoot (newStepNodes s g y0) = []"
  by (auto simp: filter_empty_conv elim!: in_newStepNodes)

lemma layoutLoop_groupIds:
  "map groupId (filter isGroup (acc_nodes (layoutLoop s gi gs a)))
     = map groupId (filter isGroup (acc_nodes a)) @ map (\<lambda>g. Some (grp_id g)) gs"
  by (induction gs arbitrary: gi a) (simp_all add: layoutGroup_nodes)

lemma layoutLoop_all:
  assumes "\<And>n. n \<in> set (acc_nodes a) \<Longrightarrow> P n"
    and "\<And>g y0 p. P (stepNode (partZone + 50) y0 g p)"
    and "\<And>g ns y0. P (newGroupNode s g ns y0)"
    and "n \<in> set (acc_nodes (layoutLoop s gi gs a))"
  shows "P n"
  using assms(1,4)
proof (induction gs arbitrary: gi a)
  case Nil
  then show ?case by simp
next
  case (Cons g gs)
  show ?case
  proof (rule Cons.IH [of "layoutGroup s g gi a" "Suc gi"])
    fix m assume "m \<in> set (acc_nodes (layoutGroup s g gi a))"
    then consider "m \<in> set (acc_nodes a)" | "m \<in> set (newStepNodes s g (curY a))"
      | "m = newGroupNode s g (acc_nodes a @ newStepNodes s g (curY a)) (curY a)"
      by (auto simp: layoutGroup_nodes)
    then show "P m"
    proof cases
      case 1
      then show ?thesis by (rule Cons.prems(1))
    next
      case 2
      then show ?thesis by (auto elim!: in_newStepNodes intro: assms(2))
    next
      case 3
      then show ?thesis by (simp add: assms(3))
    qed
  next
    show "n \<in> set (acc_nodes (layoutLoop s (Suc gi) gs (layoutGroup s g gi a)))"
      using Cons.prems(2) by simp
  qed
qed

lemma layoutLoop_swimlanes:
  "map sl_grp (acc_swimlanes (layoutLoop s gi gs a)) = map sl_grp (acc_swimlanes a) @ gs
   \<and> map sl_gi (acc_swimlanes (layoutLoop s gi gs a))
       = map sl_gi (acc_swimlanes a) @ [gi..<gi + length gs]"
proof (induction gs arbitrary: gi a)
  case Nil
  then show ?case by simp
next
  case (Cons g gs)
  have u: "[gi..<gi + length (g # gs)] = gi # [Suc gi..<Suc gi + length gs]"
    by (subst upt_rec) (simp del: upt_Suc)
  show ?case
    unfolding u using Cons.IH [of "Suc gi" "layoutGroup s g gi a"]
    by (simp add: layoutGroup_swimlanes del: upt_Suc)
qed

lemma layoutLoop_bands:
  assumes "sorted_wrt (<) (map sl_startY (acc_swimlanes a))"
    and "\<And>b. b \<in> set (acc_swimlanes a) \<Longrightarrow> sl_startY b < curY a"
  shows "sorted_wrt (<) (map sl_startY (acc_swimlanes (layoutLoop s gi gs a)))"
  using assms
proof (induction gs arbitrary: gi a)
  case Nil
  then show ?case by simp
next
  case (Cons g gs)
  let ?a = "layoutGroup s g gi a"
  have h: "0 < swimHeight s g + swimGap"
    using swimHeight_pos [of s g] by (simp add: swimGap_def)
  have srt: "sorted_wrt (<) (map sl_startY (acc_swimlanes ?a))"
    using Cons.prems by (auto simp: layoutGroup_swimlanes sorted_wrt_append)
  have below: "sl_startY b < curY ?a" if "b \<in> set (acc_swimlanes ?a)" for b
    using that Cons.prems(2) h by (fastforce simp: layoutGroup_swimlanes layoutGroup_curY)
  show ?case using Cons.IH [OF srt below] by simp
qed

lemma layoutLoop_empty_band:
  assumes "\<And>b. b \<in> set (acc_swimlanes a) \<Longrightarrow> sl_stepCount b = 0 \<Longrightarrow>
      \<exists>n \<in> set (acc_nodes a). node_id n = GroupNode (grp_id (sl_grp b)) \<and> isGroup n
        \<and> node_y n = sl_startY b + sl_height b / 2"
    and "b \<in> set (acc_swimlanes (layoutLoop s gi gs a))" "sl_stepCount b = 0"
  shows "\<exists>n \<in> set (acc_nodes (layoutLoop s gi gs a)).
      node_id n = GroupNode (grp_id (sl_grp b)) \<and> isGroup n
        \<and> node_y n = sl_startY b + sl_height b / 2"
  using assms
proof (induction gs arbitrary: gi a)
  case Nil
  then show ?case by simp
next
  case (Cons g gs)
  let ?a = "layoutGroup s g gi a"
  have step: "\<exists>n \<in> set (acc_nodes ?a). node_id n = GroupNode (grp_id (sl_grp c)) \<and> isGroup n
        \<and> node_y n = sl_startY c + sl_height c / 2"
    if c: "c \<in> set (acc_swimlanes ?a)" and z: "sl_stepCount c = 0" for c
  proof -
    from c consider "c \<in> set (acc_swimlanes a)"
      | "c = \<lparr> sl_grp = g, sl_gi = gi, sl_startY = curY a, sl_height = swimHeight s g,
               sl_stepCount = length (groupSteps (steps s) g) \<rparr>"
      by (auto simp: layoutGroup_swimlanes)
    then show ?thesis
    proof cases
      case 1
      from Cons.prems(1) [OF 1 z] show ?thesis by (auto simp: layoutGroup_nodes)
    next
      case 2
      with z have e: "groupSteps (steps s) g = []" by simp
      let ?gn = "newGroupNode s g (acc_nodes a @ newStepNodes s g (curY a)) (curY a)"
      have "node_y ?gn = curY a + swimHeight s g / 2"
        by (simp add: newGroupNode_def lookupYs_def e)
      then have "node_id ?gn = GroupNode (grp_id (sl_grp c)) \<and> isGroup ?gn
        \<and> node_y ?gn = sl_startY c + sl_height c / 2"
        by (simp add: 2)
      moreover have "?gn \<in> set (acc_nodes ?a)" by (simp add: layoutGroup_nodes)
      ultimately show ?thesis by blast
    qed
  qed
  show ?case
    using Cons.IH [where a = ?a and gi = "Suc gi", OF step] Cons.prems(2,3) by simp
qed


subsection \<open>The finished layout\<close>

lemma layout_fields:
  assumes "calculateTreeLayout s = Inr (Some l)"
  shows "swimlanes l = acc_swimlanes (layoutAcc s)"
    and "sortedGroups l = filterGroups s"
    and "stepColX l = partZone + 50"
    and "links l = acc_links (layoutAcc s)"
    and "\<exists>r. nodes l = acc_nodes (layoutAcc s) @ [r] \<and> isRoot r \<and> \<not> isStep r \<and> \<not> isGroup r
           \<and> node_y r = (case midRange (groupYs (acc_nodes (layoutAcc s))) of
                            Some m \<Rightarrow> m | None \<Rightarrow> topPad + headerH)"
  using assms
  by (auto simp: calculateTreeLayout_def Let_def layoutAcc_def groupYs_def
      split: if_splits option.splits)

lemma filterGroups_visible: "filterGroups s = filter (visible s) (sortGroups (groups s))"
  by (cases "visibleGroupIds s") (simp_all add: filterGroups_def visible_def [abs_def])

section \<open>Properties of dragging\<close>

subsection \<open>What a drag leaves alone\<close>

lemma length_updateFirst [simp]: "length (updateFirst p f ns) = length ns"
  by (induction ns) simp_all

lemma updateFirst_frame:
  "(\<And>n. frame (f n) = frame n) \<Longrightarrow> map frame (updateFirst p f ns) = map frame ns"
  by (induction ns) simp_all

lemma frame_set_y [simp]: "frame (n\<lparr>node_y := v\<rparr>) = frame n"
  by (simp add: frame_def)

lemma frame_fields [simp]:
  "isStep (frame n) = isStep n" "isGroup (frame n) = isGroup n" "isRoot (frame n) = isRoot n"
  "groupId (frame n) = groupId n" "node_x (frame n) = node_x n" "node_id (frame n) = node_id n"
  "dbId (frame n) = dbId n" "node_w (frame n) = node_w n"
  by (simp_all add: frame_def)

lemma recenterGroup_frame: "map frame (recenterGroup gid ns) = map frame ns"
  by (simp add: recenterGroup_def updateFirst_frame split: option.splits)

lemma recenterRoot_frame: "map frame (recenterRoot ns) = map frame ns"
  by (simp add: recenterRoot_def updateFirst_frame split: option.splits)

lemma list_update_frame: "map frame (ns[i := (ns ! i)\<lparr>node_y := v\<rparr>]) = map frame ns"
  by (cases "i < length ns") (simp_all add: map_update list_update_same_conv list_update_beyond)

lemma onDrag_frame: "map frame (allNodes (onDrag i newY v)) = map frame (allNodes v)"
  by (simp add: onDrag_def Let_def recenterRoot_frame recenterGroup_frame list_update_frame)

lemma dragAll_frame: "map frame (allNodes (dragAll ds v)) = map frame (allNodes v)"
  unfolding dragAll_def
  by (induction ds arbitrary: v) (simp_all add: onDrag_frame split: prod.splits)

lemma frame_map_eq:
  assumes "map frame xs = map frame ys" "\<And>n. h (frame n) = h n"
  shows "map h xs = map h ys"
proof -
  have "map h xs = map h (map frame xs)" by (simp add: assms(2))
  also have "\<dots> = map h (map frame ys)" by (simp only: assms(1))
  also have "\<dots> = map h ys" by (simp add: assms(2))
  finally show ?thesis .
qed

lemma frame_list_all:
  assumes "map frame xs = map frame ys" "\<And>n. P (frame n) = P n"
  shows "list_all P xs = list_all P ys"
proof -
  have m: "map P xs = map P ys" using assms(1) by (rule frame_map_eq) (rule assms(2))
  have "list_all P zs \<longleftrightarrow> list_all (\<lambda>b. b) (map P zs)" for zs
    by (induction zs) simp_all
  then show ?thesis using m by simp
qed

section \<open>The example, evaluated\<close>

lemma ex_groupSteps_2: "groupSteps (steps exState) \<lparr> grp_id = 2, grp_label = ''B'', grp_sort_order = Some 1 \<rparr>
  = [\<lparr> step_id = 20, group_id = 2, step_label = ''b1'', step_sort_order = None,
         step_y = None, label_position = Some 0 \<rparr>]"
  by (simp add: exState_def exSteps_group_2)

lemma ex_groupSteps_1: "groupSteps (steps exState) \<lparr> grp_id = 1, grp_label = ''A'', grp_sort_order = Some 1 \<rparr>
  = [\<lparr> step_id = 10, group_id = 1, step_label = ''a1'', step_sort_order = Some 1,
         step_y = None, label_position = None \<rparr>,
     \<lparr> step_id = 11, group_id = 1, step_label = ''a2'', step_sort_order = Some 2,
         step_y = None, label_position = None \<rparr>]"
  by (simp add: exState_def exSteps_group_1)

lemma ex_filterGroups: "filterGroups exState = exGroups"
  by (simp add: filterGroups_def exState_def exGroups_sorted)

lemma ex_swimHeight_2: "swimHeight exState \<lparr> grp_id = 2, grp_label = ''B'', grp_sort_order = Some 1 \<rparr> = 180"
  unfolding swimHeight_def ex_groupSteps_2
  by (simp add: exState_def stepGapY_def VERTICAL_GAP_def swimPadY_def)

lemma ex_swimHeight_1: "swimHeight exState \<lparr> grp_id = 1, grp_label = ''A'', grp_sort_order = Some 1 \<rparr> = 220"
  unfolding swimHeight_def ex_groupSteps_1
  by (simp add: exState_def stepGapY_def VERTICAL_GAP_def swimPadY_def)

lemma ex_layout_swimlanes:
  "acc_swimlanes (layoutLoop exState 0 exGroups \<lparr> acc_nodes = [], acc_links = [], acc_swimlanes = [], curY = topPad + headerH \<rparr>)
   = [\<lparr> sl_grp = \<lparr> grp_id = 2, grp_label = ''B'', grp_sort_order = Some 1 \<rparr>, sl_gi = 0, sl_startY = 120, sl_height = 180, sl_stepCount = 1 \<rparr>,
      \<lparr> sl_grp = \<lparr> grp_id = 1, grp_label = ''A'', grp_sort_order = Some 1 \<rparr>, sl_gi = 1, sl_startY = 314, sl_height = 220, sl_stepCount = 2 \<rparr>]"
  unfolding exGroups_def
  by (simp add: layoutGroup_swimlanes layoutGroup_curY ex_swimHeight_1 ex_swimHeight_2
      ex_groupSteps_1 ex_groupSteps_2 topPad_def headerH_def swimGap_def)

lemma ex_layout_nodes:
  "acc_nodes (layoutLoop exState 0 exGroups \<lparr> acc_nodes = [], acc_links = [], acc_swimlanes = [], curY = topPad + headerH \<rparr>)
   = [\<lparr>node_id = StepNode 20, dbId = Some 20, node_x = 220,
              node_y = 150, node_w = 150, node_h = 38, node_label = ''b1'',
              groupId = Some 2, isStep = True, isGroup = False,
              isRoot = False\<rparr>,
           \<lparr>node_id = GroupNode 2, dbId = None, node_x = 520, node_y = 150,
              node_w = 170, node_h = 46, node_label = ''B'',
              groupId = Some 2, isStep = False, isGroup = True,
              isRoot = False\<rparr>,
           \<lparr>node_id = StepNode 10, dbId = Some 10, node_x = 220,
              node_y = 344, node_w = 150, node_h = 38, node_label = ''a1'',
              groupId = Some 1, isStep = True, isGroup = False,
              isRoot = False\<rparr>,
           \<lparr>node_id = StepNode 11, dbId = Some 11, node_x = 220,
              node_y = 424, node_w = 150, node_h = 38, node_label = ''a2'',
              groupId = Some 1, isStep = True, isGroup = False,
              isRoot = False\<rparr>,
           \<lparr>node_id = GroupNode 1, dbId = None, node_x = 520, node_y = 384,
              node_w = 170, node_h = 46, node_label = ''A'',
              groupId = Some 1, isStep = False, isGroup = True,
              isRoot = False\<rparr>]"
  unfolding exGroups_def
  by (simp add: layoutGroup_nodes layoutGroup_curY ex_swimHeight_1 ex_swimHeight_2
      newStepNodes_def newGroupNode_def lookupYs_def stepNode_def enumerate_eq_zip
      ex_groupSteps_1 ex_groupSteps_2 topPad_def headerH_def swimGap_def partZone_def
      swimPadY_def stepGapY_def VERTICAL_GAP_def NODE_WIDTH_def NODE_HEIGHT_def Let_def)
   (simp add: exState_def)

lemma layoutGroup_links:
  "acc_links (layoutGroup s g gi a)
     = acc_links a @ map (stepLink (fasts s) g) (groupSteps (steps s) g)
       @ [\<lparr> sourceId = GroupNode (grp_id g), targetId = RootNode,
             link_type = GroupToRoot, stepDbId = None, labelPos = None,
             fastener_pn = None, link_qty = 0, link_loctite = None,
             link_torque = None, totalFasteners = 0 \<rparr>]"
  unfolding layoutGroup_def Let_def by simp

lemma ex_layoutAcc:
  "layoutAcc exState =
     \<lparr> acc_nodes = butlast exNodes, acc_links = exLinks, acc_swimlanes = swimlanes exLayout,
       curY = 548 \<rparr>"
proof -
  have n: "acc_nodes (layoutAcc exState) = butlast exNodes"
    unfolding layoutAcc_def ex_filterGroups ex_layout_nodes by (simp add: exNodes_def)
  have s: "acc_swimlanes (layoutAcc exState) = swimlanes exLayout"
    unfolding layoutAcc_def ex_filterGroups ex_layout_swimlanes by (simp add: exLayout_def)
  have l: "acc_links (layoutAcc exState) = exLinks"
    unfolding layoutAcc_def ex_filterGroups exGroups_def
    by (simp add: layoutGroup_links ex_groupSteps_1 ex_groupSteps_2 stepLink_def truthy_def
        Let_def exLinks_def)
      (simp add: exState_def truthy_def)
  have c: "curY (layoutAcc exState) = 548"
    unfolding layoutAcc_def ex_filterGroups exGroups_def
    by (simp add: layoutGroup_curY ex_swimHeight_1 ex_swimHeight_2 topPad_def headerH_def
        swimGap_def)
  show ?thesis using n s l c by (cases "layoutAcc exState") simp
qed

lemma ex_layout: "calculateTreeLayout exState = Inr (Some exLayout)"
proof -
  have g: "groups exState \<noteq> []" "steps exState \<noteq> []" "filterGroups exState \<noteq> []"
    by (simp_all add: ex_filterGroups) (simp_all add: exState_def exGroups_def exSteps_def)
  have a: "assy exState = Some \<lparr> assy_id = 7, tag = Some ''HBD_assy'' \<rparr>"
    "gap1 exState = 300" "gap2 exState = 240"
    by (simp_all add: exState_def)
  show ?thesis
    unfolding calculateTreeLayout_def Let_def layoutAcc_def [symmetric] ex_layoutAcc
    using g a
    by (simp add: exLayout_def exNodes_def partZone_def topPad_def headerH_def
        NODE_WIDTH_def NODE_HEIGHT_def ex_filterGroups)
qed

section \<open>The claims about the layout\<close>

text \<open>
  C2, as the code has it. The bands follow the groups sorted by sort key, a filter
  keeping that relative order; band \<open>i\<close> has index \<open>i\<close>, and a later band starts
  lower. The sort is stable: groups with equal sort keys stay in the order of the input
  collection (the identifier plays no part).
\<close>

theorem swimlanes_follow_stable_sort:
  assumes "calculateTreeLayout s = Inr (Some l)"
  shows "map sl_grp (swimlanes l) = filter (visible s) (sortGroups (groups s))
       \<and> map sl_gi (swimlanes l) = [0..<length (swimlanes l)]
       \<and> sorted_wrt (<) (map sl_startY (swimlanes l))
       \<and> sorted (map (\<lambda>g. sortKey (grp_sort_order g)) (sortGroups (groups s)))
       \<and> (\<forall>k. filter (\<lambda>g. sortKey (grp_sort_order g) = k) (sortGroups (groups s))
              = filter (\<lambda>g. sortKey (grp_sort_order g) = k) (groups s))"
proof -
  let ?init = "\<lparr> acc_nodes = [], acc_links = [], acc_swimlanes = [], curY = topPad + headerH \<rparr>"
  have sw: "swimlanes l = acc_swimlanes (layoutLoop s 0 (filterGroups s) ?init)"
    using layout_fields(1) [OF assms] by (simp add: layoutAcc_def)
  have grps: "map sl_grp (swimlanes l) = filter (visible s) (sortGroups (groups s))"
    unfolding sw using layoutLoop_swimlanes [of s 0 "filterGroups s" ?init]
    by (simp add: filterGroups_visible)
  have "length (swimlanes l) = length (filterGroups s)"
    using grps by (metis length_map filterGroups_visible)
  then have idx: "map sl_gi (swimlanes l) = [0..<length (swimlanes l)]"
    unfolding sw using layoutLoop_swimlanes [of s 0 "filterGroups s" ?init] by simp
  have bands: "sorted_wrt (<) (map sl_startY (swimlanes l))"
    unfolding sw by (rule layoutLoop_bands) simp_all
  have srt: "sorted (map (\<lambda>g. sortKey (grp_sort_order g)) (sortGroups (groups s)))"
    by (simp add: sortGroups_def)
  have stable: "\<forall>k. filter (\<lambda>g. sortKey (grp_sort_order g) = k) (sortGroups (groups s))
              = filter (\<lambda>g. sortKey (grp_sort_order g) = k) (groups s)"
    by (simp add: sortGroups_def sort_key_stable)
  from grps idx bands srt stable show ?thesis by blast
qed

theorem swimlanes_follow_stable_sort_witness:
  "calculateTreeLayout exState = Inr (Some exLayout)
   \<and> map sl_grp (swimlanes exLayout) = filter (visible exState) (sortGroups (groups exState))
   \<and> map sl_gi (swimlanes exLayout) = [0..<length (swimlanes exLayout)]
   \<and> sorted_wrt (<) (map sl_startY (swimlanes exLayout))"
  using swimlanes_follow_stable_sort [OF ex_layout] ex_layout by blast

text \<open>
  The claim as written fails: the two groups of the example have the same sort key, and
  the one with the smaller identifier gets the later band, since it comes later in the
  input.
\<close>

theorem equal_keys_smaller_identifier_later_band:
  "calculateTreeLayout exState = Inr (Some exLayout)
   \<and> map (\<lambda>g. (grp_id g, sortKey (grp_sort_order g))) (groups exState) = [(2, 1), (1, 1)]
   \<and> map (\<lambda>b. (grp_id (sl_grp b), sl_gi b, sl_startY b)) (swimlanes exLayout)
       = [(2, 0, 120), (1, 1, 314)]"
  using ex_layout by (simp add: exState_def exGroups_def exLayout_def sortKey_def)

theorem calculateTreeLayout_null_iff_witness:
  "calculateTreeLayout exState \<noteq> Inr None
   \<and> (\<exists>l. calculateTreeLayout exState = Inr (Some l))
   \<and> calculateTreeLayout (exState\<lparr>visibleGroupIds := Some {5}\<rparr>) = Inr None
   \<and> calculateTreeLayout (exState\<lparr>steps := []\<rparr>) = Inr None"
  using calculateTreeLayout_null_iff [of exState]
    calculateTreeLayout_null_iff [of "exState\<lparr>visibleGroupIds := Some {5}\<rparr>"]
    calculateTreeLayout_null_iff [of "exState\<lparr>steps := []\<rparr>"]
  by (simp add: exState_def exGroups_def exSteps_def)


section \<open>The claims about dragging\<close>

lemma renderView_nodes [simp]: "allNodes (renderView s l) = nodes l"
  by (simp add: renderView_def)

lemma layout_step_column:
  assumes "calculateTreeLayout s = Inr (Some l)"
  shows "list_all (\<lambda>n. isStep n \<longrightarrow> node_x n = partZone + 50) (nodes l)"
proof -
  from layout_fields(5) [OF assms] obtain r where
    n: "nodes l = acc_nodes (layoutAcc s) @ [r]" and r: "\<not> isStep r" by blast
  have "isStep m \<longrightarrow> node_x m = partZone + 50" if "m \<in> set (acc_nodes (layoutAcc s))" for m
    using that unfolding layoutAcc_def
    by (rule layoutLoop_all [rotated 3]) simp_all
  then show ?thesis using r by (simp add: n list_all_iff)
qed

text \<open>
  C6. The step column is at \<open>x = 220\<close> for every band. After any sequence of drags
  on the rendered layout every step node is still in that column, and a single drag of
  any view changes no node's \<open>x\<close>, nor anything of a node but its \<open>y\<close>.
\<close>

theorem column_lock:
  assumes "calculateTreeLayout s = Inr (Some l)"
  shows "stepColX l = 220
       \<and> list_all (\<lambda>n. isStep n \<longrightarrow> node_x n = stepColX l) (allNodes (dragAll ds (renderView s l)))
       \<and> map node_x (allNodes (dragAll ds (renderView s l))) = map node_x (nodes l)
       \<and> map node_x (allNodes (onDrag i newY v)) = map node_x (allNodes v)
       \<and> map frame (allNodes (onDrag i newY v)) = map frame (allNodes v)"
proof -
  have col: "stepColX l = partZone + 50" by (rule layout_fields(3) [OF assms])
  then have c220: "stepColX l = 220" by (simp add: partZone_def)
  have fr: "map frame (allNodes (dragAll ds (renderView s l))) = map frame (nodes l)"
    by (simp add: dragAll_frame)
  have "list_all (\<lambda>n. isStep n \<longrightarrow> node_x n = stepColX l) (nodes l)"
    using layout_step_column [OF assms] by (simp add: col)
  then have steps: "list_all (\<lambda>n. isStep n \<longrightarrow> node_x n = stepColX l)
      (allNodes (dragAll ds (renderView s l)))"
    using frame_list_all [OF fr, of "\<lambda>n. isStep n \<longrightarrow> node_x n = stepColX l"] by simp
  have xs: "map node_x (allNodes (dragAll ds (renderView s l))) = map node_x (nodes l)"
    by (rule frame_map_eq [OF fr]) simp
  have one: "map node_x (allNodes (onDrag i newY v)) = map node_x (allNodes v)"
    by (rule frame_map_eq [OF onDrag_frame]) simp
  from c220 steps xs one onDrag_frame show ?thesis by blast
qed

lemma ex_drag_nodes:
  "allNodes (onDrag 0 400 exView) =
     [\<lparr> node_id = StepNode 20, dbId = Some 20, node_x = 220, node_y = 400, node_w = 150,
         node_h = 38, node_label = ''b1'', groupId = Some 2,
         isStep = True, isGroup = False, isRoot = False \<rparr>,
      \<lparr> node_id = GroupNode 2, dbId = None, node_x = 520, node_y = 400, node_w = 170,
         node_h = 46, node_label = ''B'', groupId = Some 2,
         isStep = False, isGroup = True, isRoot = False \<rparr>,
      \<lparr> node_id = StepNode 10, dbId = Some 10, node_x = 220, node_y = 344, node_w = 150,
         node_h = 38, node_label = ''a1'', groupId = Some 1,
         isStep = True, isGroup = False, isRoot = False \<rparr>,
      \<lparr> node_id = StepNode 11, dbId = Some 11, node_x = 220, node_y = 424, node_w = 150,
         node_h = 38, node_label = ''a2'', groupId = Some 1,
         isStep = True, isGroup = False, isRoot = False \<rparr>,
      \<lparr> node_id = GroupNode 1, dbId = None, node_x = 520, node_y = 384, node_w = 170,
         node_h = 46, node_label = ''A'', groupId = Some 1,
         isStep = False, isGroup = True, isRoot = False \<rparr>,
      \<lparr> node_id = RootNode, dbId = None, node_x = 760, node_y = 392, node_w = 190,
         node_h = 54, node_label = ''HBD_assy'', groupId = None,
         isStep = False, isGroup = False, isRoot = True \<rparr>]"
  by (simp add: onDrag_def exView_def exLayout_def exNodes_def Let_def recenterGroup_def
      recenterRoot_def sibYs_def groupYs_def)

theorem column_lock_witness:
  "calculateTreeLayout exState = Inr (Some exLayout)
   \<and> stepColX exLayout = 220
   \<and> map node_x (allNodes (dragAll [(0, 400), (2, 90)] (renderView exState exLayout)))
       = [220, 520, 220, 220, 520, 760]
   \<and> map node_y (allNodes (onDrag 0 400 exView)) = [400, 400, 344, 424, 384, 392]
   \<and> map node_x (allNodes (onDrag 0 400 exView)) = map node_x (allNodes exView)"
  using column_lock [OF ex_layout, of "[(0, 400), (2, 90)]" 0 400 exView] ex_layout
  by (simp add: ex_drag_nodes) (simp add: exLayout_def exNodes_def)


section \<open>The claim about saving\<close>

lemma ex_positions:
  "positions exView = Some [(20, \<lparr> pt_x = 220, pt_y = 150 \<rparr>), (10, \<lparr> pt_x = 220, pt_y = 344 \<rparr>),
     (11, \<lparr> pt_x = 220, pt_y = 424 \<rparr>)]"
  by (simp add: exView_def renderView_def exLayout_def exNodes_def setPosition_def)

lemma ex_drag_positions:
  "positions (onDrag 0 400 exView)
     = Some [(20, \<lparr> pt_x = 220, pt_y = 400 \<rparr>), (10, \<lparr> pt_x = 220, pt_y = 344 \<rparr>),
         (11, \<lparr> pt_x = 220, pt_y = 424 \<rparr>)]"
proof -
  have n: "allNodes exView = exNodes" by (simp add: exView_def renderView_def exLayout_def)
  show ?thesis
    unfolding onDrag_def Let_def n ex_positions
    by (simp add: exNodes_def setPosition_def)
qed

lemma ex_drag_dirty: "layoutDirty (app (onDrag 0 400 exView))"
proof -
  have n: "allNodes exView = exNodes" by (simp add: exView_def renderView_def exLayout_def)
  show ?thesis unfolding onDrag_def Let_def n by (simp add: exNodes_def)
qed

text \<open>
  C1, as the code has it. Without a position table \<open>handleSave\<close> changes nothing.
  With one, it clears the layout-dirty flag whatever the outcome of the updates, and
  reports the number of rows written without error, which is at most the number of
  positions submitted.
\<close>

theorem handleSave_clears_flag:
  "(positions v = None \<longrightarrow> handleSave err v = (v, None))
   \<and> (positions v = Some pos \<longrightarrow>
         fst (handleSave err v) = v\<lparr> app := (app v)\<lparr>layoutDirty := False\<rparr> \<rparr>
       \<and> \<not> layoutDirty (app (fst (handleSave err v)))
       \<and> snd (handleSave err v) = Some (length (filter (\<lambda>e. \<not> err e) pos))
       \<and> length (filter (\<lambda>e. \<not> err e) pos) \<le> length pos)"
  by (simp add: handleSave_def savePositions_count Let_def)

theorem handleSave_clears_flag_witness:
  "positions (onDrag 0 400 exView)
     = Some [(20, \<lparr> pt_x = 220, pt_y = 400 \<rparr>), (10, \<lparr> pt_x = 220, pt_y = 344 \<rparr>),
         (11, \<lparr> pt_x = 220, pt_y = 424 \<rparr>)]
   \<and> \<not> layoutDirty (app (fst (handleSave (\<lambda>e. False) (onDrag 0 400 exView))))
   \<and> snd (handleSave (\<lambda>e. False) (onDrag 0 400 exView)) = Some 3
   \<and> handleSave (\<lambda>e. False) (exView\<lparr>positions := None\<rparr>) = (exView\<lparr>positions := None\<rparr>, None)"
  using handleSave_clears_flag [of "onDrag 0 400 exView" "\<lambda>e. False"
      "[(20, \<lparr> pt_x = 220, pt_y = 400 \<rparr>), (10, \<lparr> pt_x = 220, pt_y = 344 \<rparr>),
         (11, \<lparr> pt_x = 220, pt_y = 424 \<rparr>)]"]
    handleSave_clears_flag [of "exView\<lparr>positions := None\<rparr>" "\<lambda>e. False"]
  by (simp add: ex_drag_positions)

text \<open>
  The claim as written fails: in the example, after a drag, the update of row \<open>11\<close>
  fails, two of three rows are written, and the flag is cleared all the same.
\<close>

theorem flag_cleared_after_failed_row:
  "layoutDirty (app (onDrag 0 400 exView))
   \<and> positions (onDrag 0 400 exView)
     = Some [(20, \<lparr> pt_x = 220, pt_y = 400 \<rparr>), (10, \<lparr> pt_x = 220, pt_y = 344 \<rparr>),
         (11, \<lparr> pt_x = 220, pt_y = 424 \<rparr>)]
   \<and> snd (handleSave (\<lambda>e. fst e = 11) (onDrag 0 400 exView)) = Some 2
   \<and> \<not> layoutDirty (app (fst (handleSave (\<lambda>e. fst e = 11) (onDrag 0 400 exView))))"
  by (simp add: ex_drag_dirty handleSave_def ex_drag_positions savePositions_def Let_def)


section \<open>Idempotence of the drag handler\<close>

lemma updateFirst_fixed:
  "(case find p ns of None \<Rightarrow> True | Some n \<Rightarrow> f n = n) \<Longrightarrow> updateFirst p f ns = ns"
  by (induction ns) (auto split: if_splits)

lemma find_updateFirst_same:
  "(\<And>n. p n \<Longrightarrow> p (f n)) \<Longrightarrow> find p (updateFirst p f ns) = map_option f (find p ns)"
  by (induction ns) simp_all

lemma find_updateFirst_other:
  "(\<And>n. n \<in> set ns \<Longrightarrow> q n \<Longrightarrow> \<not> p n \<and> \<not> p (g n))
     \<Longrightarrow> find p (updateFirst q g ns) = find p ns"
  by (induction ns) auto

lemma filter_updateFirst_other:
  "(\<And>n. n \<in> set ns \<Longrightarrow> q n \<Longrightarrow> \<not> r n \<and> \<not> r (g n))
     \<Longrightarrow> filter r (updateFirst q g ns) = filter r ns"
  by (induction ns) auto

lemma nth_updateFirst_other:
  "i < length ns \<Longrightarrow> \<not> q (ns ! i) \<Longrightarrow> updateFirst q g ns ! i = ns ! i"
proof (induction ns arbitrary: i)
  case Nil
  then show ?case by simp
next
  case (Cons n ns)
  then show ?case by (cases i) auto
qed

lemma kindsOk_frame: "map frame ns' = map frame ns \<Longrightarrow> kindsOk ns' = kindsOk ns"
  unfolding kindsOk_def by (rule frame_list_all) simp_all

lemma kindsOk_elem:
  assumes "kindsOk ns" "n \<in> set ns"
  shows "isStep n \<Longrightarrow> \<not> isGroup n" "isStep n \<Longrightarrow> \<not> isRoot n" "isGroup n \<Longrightarrow> \<not> isRoot n"
  using assms by (auto simp: kindsOk_def list_all_iff)

lemma kindsOk_recenterGroup [simp]: "kindsOk (recenterGroup gid ns) = kindsOk ns"
  by (rule kindsOk_frame) (rule recenterGroup_frame)

lemma kindsOk_recenterRoot [simp]: "kindsOk (recenterRoot ns) = kindsOk ns"
  by (rule kindsOk_frame) (rule recenterRoot_frame)

lemma kindsOk_set_y [simp]: "kindsOk (ns[i := (ns ! i)\<lparr>node_y := v\<rparr>]) = kindsOk ns"
  by (rule kindsOk_frame) (rule list_update_frame)

lemma sibYs_recenterGroup:
  assumes "kindsOk ns"
  shows "sibYs g' (recenterGroup gid ns) = sibYs g' ns"
proof (cases "midRange (sibYs gid ns)")
  case None
  then show ?thesis by (simp add: recenterGroup_def)
next
  case (Some m)
  have "filter (\<lambda>n. isStep n \<and> groupId n = g')
          (updateFirst (\<lambda>n. isGroup n \<and> groupId n = gid) (\<lambda>n. n\<lparr>node_y := m\<rparr>) ns)
      = filter (\<lambda>n. isStep n \<and> groupId n = g') ns"
    by (rule filter_updateFirst_other) (use kindsOk_elem [OF assms] in auto)
  moreover have "recenterGroup gid ns
      = updateFirst (\<lambda>n. isGroup n \<and> groupId n = gid) (\<lambda>n. n\<lparr>node_y := m\<rparr>) ns"
    by (simp add: recenterGroup_def Some)
  ultimately show ?thesis by (simp add: sibYs_def)
qed

lemma sibYs_recenterRoot:
  assumes "kindsOk ns"
  shows "sibYs g' (recenterRoot ns) = sibYs g' ns"
proof (cases "midRange (groupYs ns)")
  case None
  then show ?thesis by (simp add: recenterRoot_def)
next
  case (Some m)
  have "filter (\<lambda>n. isStep n \<and> groupId n = g') (updateFirst isRoot (\<lambda>n. n\<lparr>node_y := m\<rparr>) ns)
      = filter (\<lambda>n. isStep n \<and> groupId n = g') ns"
    by (rule filter_updateFirst_other) (use kindsOk_elem [OF assms] in auto)
  moreover have "recenterRoot ns = updateFirst isRoot (\<lambda>n. n\<lparr>node_y := m\<rparr>) ns"
    by (simp add: recenterRoot_def Some)
  ultimately show ?thesis by (simp add: sibYs_def)
qed

lemma groupYs_recenterRoot:
  assumes "kindsOk ns"
  shows "groupYs (recenterRoot ns) = groupYs ns"
proof (cases "midRange (groupYs ns)")
  case None
  then show ?thesis by (simp add: recenterRoot_def)
next
  case (Some m)
  have "filter isGroup (updateFirst isRoot (\<lambda>n. n\<lparr>node_y := m\<rparr>) ns) = filter isGroup ns"
    by (rule filter_updateFirst_other) (use kindsOk_elem [OF assms] in auto)
  moreover have "recenterRoot ns = updateFirst isRoot (\<lambda>n. n\<lparr>node_y := m\<rparr>) ns"
    by (simp add: recenterRoot_def Some)
  ultimately show ?thesis by (simp add: groupYs_def)
qed

lemma recenterRoot_idem:
  assumes "kindsOk ns"
  shows "recenterRoot (recenterRoot ns) = recenterRoot ns"
proof (cases "midRange (groupYs ns)")
  case None
  then show ?thesis by (simp add: recenterRoot_def)
next
  case (Some m)
  let ?f = "\<lambda>n. n\<lparr>node_y := m\<rparr>"
  have r: "recenterRoot ns = updateFirst isRoot ?f ns"
    by (simp add: recenterRoot_def Some)
  have "recenterRoot (recenterRoot ns) = updateFirst isRoot ?f (recenterRoot ns)"
    using groupYs_recenterRoot [OF assms] Some by (simp add: recenterRoot_def [of "recenterRoot ns"])
  also have "\<dots> = recenterRoot ns"
    unfolding r
    by (rule updateFirst_fixed) (simp add: find_updateFirst_same split: option.splits)
  finally show ?thesis .
qed

lemma recenterGroup_after_root:
  assumes "kindsOk ns"
  shows "recenterGroup gid (recenterRoot (recenterGroup gid ns)) = recenterRoot (recenterGroup gid ns)"
proof -
  let ?A = "recenterGroup gid ns"
  let ?B = "recenterRoot ?A"
  have kA: "kindsOk ?A" using assms by simp
  have sib: "sibYs gid ?B = sibYs gid ns"
    by (simp add: sibYs_recenterRoot [OF kA] sibYs_recenterGroup [OF assms])
  show ?thesis
  proof (cases "midRange (sibYs gid ns)")
    case None
    then show ?thesis using sib by (simp add: recenterGroup_def [of gid ?B])
  next
    case (Some m)
    let ?p = "\<lambda>n. isGroup n \<and> groupId n = gid"
    let ?f = "\<lambda>n. n\<lparr>node_y := m\<rparr>"
    have A: "?A = updateFirst ?p ?f ns" by (simp add: recenterGroup_def Some)
    have fB: "find ?p ?B = find ?p ?A"
    proof (cases "midRange (groupYs ?A)")
      case None
      then show ?thesis by (simp add: recenterRoot_def)
    next
      case (Some mr)
      have "find ?p (updateFirst isRoot (\<lambda>n. n\<lparr>node_y := mr\<rparr>) ?A) = find ?p ?A"
        by (rule find_updateFirst_other) (use kindsOk_elem [OF kA] in auto)
      then show ?thesis by (simp add: recenterRoot_def Some)
    qed
    have fA: "find ?p ?A = map_option ?f (find ?p ns)"
      unfolding A by (rule find_updateFirst_same) simp
    have "recenterGroup gid ?B = updateFirst ?p ?f ?B"
      using sib Some by (simp add: recenterGroup_def [of gid ?B])
    also have "\<dots> = ?B"
      by (rule updateFirst_fixed) (simp add: fB fA split: option.splits)
    finally show ?thesis .
  qed
qed

lemma length_recenter [simp]:
  "length (recenterGroup gid ns) = length ns" "length (recenterRoot ns) = length ns"
  by (simp_all add: recenterGroup_def recenterRoot_def split: option.splits)

lemma length_dragNodes [simp]: "length (dragNodes i newY ns) = length ns"
  by (simp add: dragNodes_def)

lemma dragNodes_frame: "map frame (dragNodes i newY ns) = map frame ns"
  by (simp add: dragNodes_def recenterRoot_frame recenterGroup_frame list_update_frame)

lemma kindsOk_dragNodes [simp]: "kindsOk (dragNodes i newY ns) = kindsOk ns"
  by (rule kindsOk_frame) (rule dragNodes_frame)

lemma nth_recenterGroup_step:
  assumes "kindsOk ns" "i < length ns" "isStep (ns ! i)"
  shows "recenterGroup gid ns ! i = ns ! i"
proof -
  have "\<not> isGroup (ns ! i)" using kindsOk_elem(1) [OF assms(1) _ assms(3)] assms(2) by simp
  then show ?thesis
    using assms(2) by (simp add: recenterGroup_def nth_updateFirst_other split: option.splits)
qed

lemma nth_recenterRoot_step:
  assumes "kindsOk ns" "i < length ns" "isStep (ns ! i)"
  shows "recenterRoot ns ! i = ns ! i"
proof -
  have "\<not> isRoot (ns ! i)" using kindsOk_elem(2) [OF assms(1) _ assms(3)] assms(2) by simp
  then show ?thesis
    using assms(2) by (simp add: recenterRoot_def nth_updateFirst_other split: option.splits)
qed

lemma nth_dragNodes:
  assumes "kindsOk ns" "i < length ns" "isStep (ns ! i)"
  shows "dragNodes i newY ns ! i = (ns ! i)\<lparr>node_y := newY\<rparr>"
proof -
  let ?ns1 = "ns[i := (ns ! i)\<lparr>node_y := newY\<rparr>]"
  let ?ns2 = "recenterGroup (groupId (ns ! i)) ?ns1"
  have k1: "kindsOk ?ns1" using assms(1) by simp
  have s1: "isStep (?ns1 ! i)" "i < length ?ns1" using assms by simp_all
  have n2: "?ns2 ! i = ?ns1 ! i" by (rule nth_recenterGroup_step [OF k1 s1(2) s1(1)])
  have k2: "kindsOk ?ns2" using k1 by simp
  have "recenterRoot ?ns2 ! i = ?ns2 ! i"
    by (rule nth_recenterRoot_step [OF k2]) (use n2 s1 in simp_all)
  then show ?thesis using n2 assms(2) by (simp add: dragNodes_def)
qed

lemma dragNodes_idem:
  assumes "kindsOk ns" "i < length ns" "isStep (ns ! i)"
  shows "dragNodes i newY (dragNodes i newY ns) = dragNodes i newY ns"
proof -
  let ?gid = "groupId (ns ! i)"
  let ?ns1 = "ns[i := (ns ! i)\<lparr>node_y := newY\<rparr>]"
  let ?D = "dragNodes i newY ns"
  have k1: "kindsOk ?ns1" using assms(1) by simp
  have D: "?D = recenterRoot (recenterGroup ?gid ?ns1)" by (simp add: dragNodes_def)
  have at: "?D ! i = (ns ! i)\<lparr>node_y := newY\<rparr>" by (rule nth_dragNodes [OF assms])
  have u: "(?D ! i)\<lparr>node_y := newY\<rparr> = ?D ! i" by (simp add: at)
  have same: "?D[i := (?D ! i)\<lparr>node_y := newY\<rparr>] = ?D"
    unfolding u by (rule list_update_id)
  have gid: "groupId (?D ! i) = ?gid" by (simp add: at)
  have g: "recenterGroup ?gid ?D = ?D"
    unfolding D by (rule recenterGroup_after_root [OF k1])
  have r: "recenterRoot ?D = ?D"
    unfolding D by (rule recenterRoot_idem) (use k1 in simp)
  show ?thesis
    unfolding dragNodes_def [of i newY ?D] same gid g r ..
qed

lemma onDrag_fields:
  assumes "i < length (allNodes v)" "isStep (allNodes v ! i)"
  shows "onDrag i newY v =
     \<lparr> app = (app v)\<lparr>layoutDirty := True\<rparr>,
       allNodes = dragNodes i newY (allNodes v),
       positions = (case dbId (allNodes v ! i) of
                      None \<Rightarrow> positions v
                    | Some k \<Rightarrow> if k = 0 then positions v
                                else map_option (setPosition ((allNodes v ! i)\<lparr>node_y := newY\<rparr>))
                                       (positions v)),
       linkGroups = map (dragLink (dragNodes i newY (allNodes v))) (linkGroups v),
       partLinks = (if showPartNodes (app v)
                    then dragPartLinks (dragNodes i newY (allNodes v) ! i)
                           (real_of_int (int (length (nodeParts (app v)
                              (dragNodes i newY (allNodes v) ! i))) - 1) * 34)
                           0 (partLinks v)
                    else partLinks v),
       partHexes = (if showPartNodes (app v)
                    then map (dragPartHex (dragNodes i newY (allNodes v) ! i)) (partHexes v)
                    else partHexes v) \<rparr>"
proof -
  have n1: "(allNodes v)[i := (allNodes v ! i)\<lparr>node_y := newY\<rparr>] ! i
      = (allNodes v ! i)\<lparr>node_y := newY\<rparr>"
    using assms by simp
  show ?thesis
    using assms unfolding onDrag_def Let_def dragNodes_def n1 by simp
qed

lemma onDrag_skip:
  "\<not> (i < length (allNodes v) \<and> isStep (allNodes v ! i)) \<Longrightarrow> onDrag i newY v = v"
  by (simp only: onDrag_def if_not_P if_False)

lemma dragLabel_idem:
  "dragLabel sx sy tx ty (dragLabel sx sy tx ty fl) = dragLabel sx sy tx ty fl"
  by (simp add: dragLabel_def Let_def)

lemma dragLink_idem: "dragLink ns (dragLink ns lg) = dragLink ns lg"
proof (cases "lastNode (data_src lg) ns")
  case None
  then show ?thesis by (simp add: dragLink_def)
next
  case (Some src)
  note src = this
  show ?thesis
  proof (cases "lastNode (data_tgt lg) ns")
    case None
    then show ?thesis by (simp add: dragLink_def src)
  next
    case (Some tgt)
    show ?thesis
      by (simp add: dragLink_def src Some Let_def option.map_comp comp_def dragLabel_idem)
  qed
qed

lemma dragPartHex_idem: "dragPartHex d (dragPartHex d el) = dragPartHex d el"
  by (simp add: dragPartHex_def)

lemma dragPartLinks_idem:
  "dragPartLinks d t k (dragPartLinks d t k els) = dragPartLinks d t k els"
  by (induction els arbitrary: k) simp_all

lemma setPosition_idem: "setPosition n (setPosition n ps) = setPosition n ps"
  by (simp add: setPosition_def split: option.splits)

lemma nodeParts_layoutDirty [simp]: "nodeParts (s\<lparr>layoutDirty := b\<rparr>) n = nodeParts s n"
  by (simp add: nodeParts_def split: option.splits)

lemma kindsOk_layout:
  assumes l: "calculateTreeLayout s = Inr (Some l)"
  shows "kindsOk (nodes l)"
proof -
  let ?K = "\<lambda>m. (isStep m \<longrightarrow> \<not> isGroup m \<and> \<not> isRoot m) \<and> (isGroup m \<longrightarrow> \<not> isRoot m)"
  from layout_fields(5) [OF l] obtain r where
    n: "nodes l = acc_nodes (layoutAcc s) @ [r]" and r: "\<not> isStep r" "\<not> isGroup r" by blast
  have "?K m" if "m \<in> set (acc_nodes (layoutAcc s))" for m
  proof (rule layoutLoop_all [where P = ?K])
    show "m \<in> set (acc_nodes (layoutLoop s 0 (filterGroups s)
        \<lparr> acc_nodes = [], acc_links = [], acc_swimlanes = [], curY = topPad + headerH \<rparr>))"
      using that by (simp add: layoutAcc_def)
  qed simp_all
  then have "\<forall>m \<in> set (acc_nodes (layoutAcc s) @ [r]). ?K m"
    using r by auto
  then show ?thesis unfolding n kindsOk_def list_all_iff .
qed

lemma kindsOk_reachable:
  assumes l: "calculateTreeLayout s = Inr (Some l)"
  shows "kindsOk (allNodes (dragAll ds (renderView s l)))"
proof -
  have "map frame (allNodes (dragAll ds (renderView s l))) = map frame (nodes l)"
    by (simp add: dragAll_frame)
  from kindsOk_frame [OF this] kindsOk_layout [OF l] show ?thesis by simp
qed

text \<open>
  C4. On a node table whose kind flags exclude each other, the drag handler applied
  twice with the same step and the same \<open>y\<close> leaves the same session as applied once:
  the node table with the step, group and root positions, the position table, the link
  paths and label anchors, and the part links and offsets. Every table that the layout
  builds, and every table reached from it by drags, has such flags.
\<close>


theorem onDrag_idempotent:
  "(kindsOk (allNodes v) \<longrightarrow> onDrag i newY (onDrag i newY v) = onDrag i newY v)
   \<and> (calculateTreeLayout s = Inr (Some l) \<longrightarrow> kindsOk (allNodes (dragAll ds (renderView s l))))"
proof (intro conjI impI)
  assume k: "kindsOk (allNodes v)"
  show "onDrag i newY (onDrag i newY v) = onDrag i newY v"
  proof (cases "i < length (allNodes v) \<and> isStep (allNodes v ! i)")
    case False
    then show ?thesis by (simp add: onDrag_skip)
  next
    case True
    then have i: "i < length (allNodes v)" and st: "isStep (allNodes v ! i)" by simp_all
    let ?D = "dragNodes i newY (allNodes v)"
    let ?v = "onDrag i newY v"
    note first = onDrag_fields [OF i st, of newY]
    have at: "?D ! i = (allNodes v ! i)\<lparr>node_y := newY\<rparr>"
      by (rule nth_dragNodes [OF k i st])
    have idem: "dragNodes i newY ?D = ?D" by (rule dragNodes_idem [OF k i st])
    have nodes: "allNodes ?v = ?D" by (simp add: first)
    have i': "i < length (allNodes ?v)" and st': "isStep (allNodes ?v ! i)"
      using i st by (simp_all add: nodes at)
    note second = onDrag_fields [OF i' st', of newY, unfolded nodes idem]
    have f_app: "app ?v = (app v)\<lparr>layoutDirty := True\<rparr>"
      by (simp only: first session.select_convs)
    have f_pos: "positions ?v = (case dbId (allNodes v ! i) of
                      None \<Rightarrow> positions v
                    | Some k \<Rightarrow> if k = 0 then positions v
                                else map_option (setPosition ((allNodes v ! i)\<lparr>node_y := newY\<rparr>))
                                       (positions v))"
      by (simp only: first session.select_convs)
    have f_links: "linkGroups ?v = map (dragLink ?D) (linkGroups v)"
      by (simp only: first session.select_convs)
    have f_pl: "partLinks ?v = (if showPartNodes (app v)
                    then dragPartLinks (?D ! i)
                           (real_of_int (int (length (nodeParts (app v) (?D ! i))) - 1) * 34)
                           0 (partLinks v)
                    else partLinks v)"
      by (simp only: first session.select_convs)
    have f_ph: "partHexes ?v = (if showPartNodes (app v)
                    then map (dragPartHex (?D ! i)) (partHexes v)
                    else partHexes v)"
      by (simp only: first session.select_convs)
    have s_app: "app (onDrag i newY ?v) = (app ?v)\<lparr>layoutDirty := True\<rparr>"
      by (simp only: second session.select_convs)
    have s_nodes: "allNodes (onDrag i newY ?v) = ?D"
      by (simp only: second session.select_convs)
    have s_pos: "positions (onDrag i newY ?v) = (case dbId (?D ! i) of
                      None \<Rightarrow> positions ?v
                    | Some k \<Rightarrow> if k = 0 then positions ?v
                                else map_option (setPosition ((?D ! i)\<lparr>node_y := newY\<rparr>))
                                       (positions ?v))"
      by (simp only: second session.select_convs)
    have s_links: "linkGroups (onDrag i newY ?v) = map (dragLink ?D) (linkGroups ?v)"
      by (simp only: second session.select_convs)
    have s_pl: "partLinks (onDrag i newY ?v) = (if showPartNodes (app ?v)
                    then dragPartLinks (?D ! i)
                           (real_of_int (int (length (nodeParts (app ?v) (?D ! i))) - 1) * 34)
                           0 (partLinks ?v)
                    else partLinks ?v)"
      by (simp only: second session.select_convs)
    have s_ph: "partHexes (onDrag i newY ?v) = (if showPartNodes (app ?v)
                    then map (dragPartHex (?D ! i)) (partHexes ?v)
                    else partHexes ?v)"
      by (simp only: second session.select_convs)
    have e_app: "app (onDrag i newY ?v) = app ?v"
      unfolding s_app f_app by simp
    have e_nodes: "allNodes (onDrag i newY ?v) = allNodes ?v"
      unfolding s_nodes nodes ..
    have e_pos: "positions (onDrag i newY ?v) = positions ?v"
      unfolding s_pos f_pos at
      by (simp add: setPosition_idem option.map_comp comp_def split: option.splits)
    have e_links: "linkGroups (onDrag i newY ?v) = linkGroups ?v"
      unfolding s_links f_links by (simp add: dragLink_idem)
    have e_pl: "partLinks (onDrag i newY ?v) = partLinks ?v"
      unfolding s_pl f_pl f_app by (simp add: dragPartLinks_idem)
    have e_ph: "partHexes (onDrag i newY ?v) = partHexes ?v"
      unfolding s_ph f_ph f_app by (simp add: dragPartHex_idem)
    show ?thesis
      by (rule session.equality) (simp_all add: e_app e_nodes e_pos e_links e_pl e_ph)
  qed
next
  assume l: "calculateTreeLayout s = Inr (Some l)"
  then show "kindsOk (allNodes (dragAll ds (renderView s l)))"
    by (rule kindsOk_reachable)
qed

theorem onDrag_idempotent_witness:
  "kindsOk (allNodes exView)
   \<and> onDrag 0 400 (onDrag 0 400 exView) = onDrag 0 400 exView
   \<and> calculateTreeLayout exState = Inr (Some exLayout)
   \<and> kindsOk (allNodes (dragAll [(0, 400), (2, 90)] (renderView exState exLayout)))"
proof -
  have k: "kindsOk (allNodes exView)"
    by (simp add: exView_def exLayout_def exNodes_def kindsOk_def)
  show ?thesis
    using onDrag_idempotent [of exView 0 400 exState exLayout "[(0, 400), (2, 90)]"] k ex_layout
    by blast
qed


section \<open>Centring of group nodes and root\<close>

lemma centred_iff: "centred ns = centredMid ns"
  unfolding centred_def centredMid_def list_all_iff
  by (intro arg_cong2 [where f = "(\<and>)"] ball_cong refl imp_cong) (auto simp add: midRange_Min_Max)

lemma updateFirst_unique:
  "length (filter p ns) \<le> 1 \<Longrightarrow> updateFirst p f ns = map (\<lambda>n. if p n then f n else n) ns"
proof (induction ns)
  case Nil
  then show ?case by simp
next
  case (Cons v vs)
  show ?case
  proof (cases "p v")
    case True
    with Cons.prems have "filter p vs = []" by simp
    then have "map (\<lambda>n. if p n then f n else n) vs = vs"
      by (intro map_idI) (auto simp: filter_empty_conv)
    then show ?thesis using True by simp
  next
    case False
    then show ?thesis using Cons by simp
  qed
qed

lemma distinct_key_filter:
  "distinct (map h xs) \<Longrightarrow> length (filter (\<lambda>x. h x = k) xs) \<le> 1"
proof (induction xs)
  case Nil
  then show ?case by simp
next
  case (Cons x xs)
  show ?case
  proof (cases "h x = k")
    case True
    with Cons.prems have "filter (\<lambda>x. h x = k) xs = []"
      by (auto simp: filter_empty_conv image_iff)
    then show ?thesis by simp
  next
    case False
    then show ?thesis using Cons by simp
  qed
qed

lemma wellFormed_group_unique:
  assumes "wellFormed ns"
  shows "length (filter (\<lambda>n. isGroup n \<and> groupId n = gid) ns) \<le> 1"
proof -
  have "filter (\<lambda>n. isGroup n \<and> groupId n = gid) ns
      = filter (\<lambda>n. groupId n = gid) (filter isGroup ns)"
    by (simp add: conj_commute)
  then show ?thesis
    using assms distinct_key_filter [of groupId "filter isGroup ns" gid]
    by (simp add: wellFormed_def)
qed

lemma filter_frame: "(\<And>n. p (frame n) = p n) \<Longrightarrow> filter p (map frame ns) = map frame (filter p ns)"
  by (induction ns) simp_all

lemma wellFormed_frame:
  assumes "map frame ns' = map frame ns"
  shows "wellFormed ns' = wellFormed ns"
proof -
  have g: "map groupId (filter isGroup zs) = map groupId (filter isGroup (map frame zs))" for zs
    by (simp add: filter_frame)
  have r: "length (filter isRoot zs) = length (filter isRoot (map frame zs))" for zs
    by (simp add: filter_frame)
  have "map groupId (filter isGroup ns') = map groupId (filter isGroup ns)"
    using g [of ns'] g [of ns] assms by simp
  moreover have "length (filter isRoot ns') = length (filter isRoot ns)"
    using r [of ns'] r [of ns] assms by simp
  ultimately show ?thesis
    using kindsOk_frame [OF assms] by (simp add: wellFormed_def)
qed

lemma filter_list_update_other:
  "\<not> r (ns ! i) \<Longrightarrow> \<not> r x \<Longrightarrow> i < length ns \<Longrightarrow> filter r (ns[i := x]) = filter r ns"
proof (induction ns arbitrary: i)
  case Nil
  then show ?case by simp
next
  case (Cons n ns)
  then show ?case by (cases i) auto
qed

lemma in_updateFirst:
  "g \<in> set (updateFirst p f ns) \<Longrightarrow> g \<in> set ns \<or> (\<exists>n \<in> set ns. p n \<and> g = f n)"
  by (induction ns) (auto split: if_splits)

lemma dragNodes_centred:
  assumes wf: "wellFormed ns" and c: "centredMid ns" and i: "i < length ns" and st: "isStep (ns ! i)"
  shows "centredMid (dragNodes i newY ns)"
proof -
  let ?gid = "groupId (ns ! i)"
  let ?d = "(ns ! i)\<lparr>node_y := newY\<rparr>"
  let ?ns1 = "ns[i := ?d]"
  let ?ns2 = "recenterGroup ?gid ?ns1"
  let ?ns3 = "recenterRoot ?ns2"
  let ?pg = "\<lambda>n. isGroup n \<and> groupId n = ?gid"
  have D: "dragNodes i newY ns = ?ns3" by (simp add: dragNodes_def)
  have k: "kindsOk ns" using wf by (simp add: wellFormed_def)
  have k1: "kindsOk ?ns1" using k by simp
  have k2: "kindsOk ?ns2" using k1 by simp
  have wf1: "wellFormed ?ns1" using wf wellFormed_frame [OF list_update_frame] by simp
  have wf2: "wellFormed ?ns2" using wf1 wellFormed_frame [OF recenterGroup_frame] by simp
  have d_in: "?d \<in> set ?ns1" using i by (simp add: set_update_memI)
  have "isStep ?d \<and> groupId ?d = ?gid" using st by simp
  with d_in have "\<exists>x \<in> set ?ns1. isStep x \<and> groupId x = ?gid" by (rule rev_bexI)
  then have "filter (\<lambda>n. isStep n \<and> groupId n = ?gid) ?ns1 \<noteq> []"
    by (simp add: filter_empty_conv)
  then have "sibYs ?gid ?ns1 \<noteq> []" by (simp add: sibYs_def)
  then obtain m where m: "midRange (sibYs ?gid ?ns1) = Some m"
    using midRange_Some by blast
  have ns2: "?ns2 = map (\<lambda>n. if ?pg n then n\<lparr>node_y := m\<rparr> else n) ?ns1"
    using updateFirst_unique [OF wellFormed_group_unique [OF wf1, of ?gid]]
    by (simp add: recenterGroup_def m)
  have sib3: "sibYs g' ?ns3 = sibYs g' ?ns1" for g'
    by (simp add: sibYs_recenterRoot [OF k2] sibYs_recenterGroup [OF k1])
  have gy3: "groupYs ?ns3 = groupYs ?ns2" by (rule groupYs_recenterRoot [OF k2])
  have grp: "midRange (sibYs (groupId g) ?ns3) = Some (node_y g)"
    if g3: "g \<in> set ?ns3" and gg: "isGroup g" and ne: "sibYs (groupId g) ?ns3 \<noteq> []" for g
  proof -
    have g2: "g \<in> set ?ns2"
    proof (cases "midRange (groupYs ?ns2)")
      case None
      then show ?thesis using g3 by (simp add: recenterRoot_def)
    next
      case (Some mr)
      then have "g \<in> set (updateFirst isRoot (\<lambda>n. n\<lparr>node_y := mr\<rparr>) ?ns2)"
        using g3 by (simp add: recenterRoot_def)
      from in_updateFirst [OF this] show ?thesis
      proof
        assume "g \<in> set ?ns2"
        then show ?thesis .
      next
        assume "\<exists>n \<in> set ?ns2. isRoot n \<and> g = n\<lparr>node_y := mr\<rparr>"
        then obtain n where n: "n \<in> set ?ns2" "isRoot n" "g = n\<lparr>node_y := mr\<rparr>" by blast
        with gg have "isGroup n" by simp
        with kindsOk_elem(3) [OF k2 n(1)] n(2) show ?thesis by blast
      qed
    qed
    then obtain n where n: "n \<in> set ?ns1" and gn: "g = (if ?pg n then n\<lparr>node_y := m\<rparr> else n)"
      unfolding ns2 by auto
    show ?thesis
    proof (cases "?pg n")
      case True
      then have "groupId g = ?gid" "node_y g = m" by (simp_all add: gn)
      then show ?thesis by (simp add: sib3 m)
    next
      case False
      then have gn': "g = n" unfolding gn by (rule if_not_P)
      with gg False have other: "groupId g \<noteq> ?gid" by simp
      have "g \<noteq> ?d" using gg st kindsOk_elem(1) [OF k1 d_in] by auto
      then have g0: "g \<in> set ns"
        using n gn' set_update_subset_insert [of ns i ?d] by auto
      have "filter (\<lambda>n. isStep n \<and> groupId n = groupId g) ?ns1
          = filter (\<lambda>n. isStep n \<and> groupId n = groupId g) ns"
        by (rule filter_list_update_other) (use other i in simp_all)
      then have same: "sibYs (groupId g) ?ns1 = sibYs (groupId g) ns" by (simp add: sibYs_def)
      from c g0 gg ne show ?thesis
        unfolding centredMid_def sib3 same by blast
    qed
  qed
  have root: "midRange (groupYs ?ns3) = Some (node_y r)"
    if r3: "r \<in> set ?ns3" and rr: "isRoot r" and ne: "groupYs ?ns3 \<noteq> []" for r
  proof -
    from ne have "groupYs ?ns2 \<noteq> []" by (simp add: gy3)
    then obtain mr where mr: "midRange (groupYs ?ns2) = Some mr"
      using midRange_Some by blast
    have "length (filter isRoot ?ns2) \<le> 1" using wf2 by (simp add: wellFormed_def)
    from updateFirst_unique [OF this]
    have ns3: "?ns3 = map (\<lambda>n. if isRoot n then n\<lparr>node_y := mr\<rparr> else n) ?ns2"
      by (simp add: recenterRoot_def mr)
    from r3 obtain n where "n \<in> set ?ns2" "r = (if isRoot n then n\<lparr>node_y := mr\<rparr> else n)"
      unfolding ns3 by auto
    with rr have "node_y r = mr" by (auto split: if_splits)
    then show ?thesis by (simp add: gy3 mr)
  qed
  show ?thesis
    unfolding D centredMid_def using grp root by blast
qed

lemma distinct_filterGroups:
  assumes "distinct (map grp_id (groups s))"
  shows "distinct (map grp_id (filterGroups s))"
  unfolding filterGroups_visible sortGroups_def
  by (intro distinct_map_filter distinct_map_sort_key assms)

lemma layoutInv_start: "layoutInv s {} []"
  by (simp add: layoutInv_def)

lemma layout_wellFormed_centred:
  assumes l: "calculateTreeLayout s = Inr (Some l)"
    and dg: "distinct (map grp_id (groups s))"
    and ds: "distinct (map step_id (steps s))"
  shows "wellFormed (nodes l) \<and> centredMid (nodes l)"
proof -
  let ?init = "\<lparr> acc_nodes = [], acc_links = [], acc_swimlanes = [], curY = topPad + headerH \<rparr>"
  let ?acc = "acc_nodes (layoutAcc s)"
  let ?done = "grp_id ` set (filterGroups s)"
  from layout_fields(5) [OF l] obtain r where
    n: "nodes l = ?acc @ [r]" and r: "isRoot r" "\<not> isStep r" "\<not> isGroup r"
    and ry: "node_y r = (case midRange (groupYs ?acc) of Some m \<Rightarrow> m | None \<Rightarrow> topPad + headerH)"
    by blast
  have "layoutInv s ({} \<union> ?done) (acc_nodes (layoutLoop s 0 (filterGroups s) ?init))"
    by (rule layoutLoop_inv [OF ds distinct_filterGroups [OF dg]]) (simp_all add: layoutInv_start)
  then have inv: "layoutInv s ?done ?acc" by (simp add: layoutAcc_def)
  have noRoot: "\<not> isRoot m" if "m \<in> set ?acc" for m
    using inv that unfolding layoutInv_def by blast
  have accCentred: "midRange (sibYs (groupId g) ?acc) = Some (node_y g)"
    if "g \<in> set ?acc" "isGroup g" "sibYs (groupId g) ?acc \<noteq> []" for g
    using inv that unfolding layoutInv_def by blast
  have gids: "map groupId (filter isGroup ?acc) = map (\<lambda>g. Some (grp_id g)) (filterGroups s)"
    using layoutLoop_groupIds [of s 0 "filterGroups s" ?init] by (simp add: layoutAcc_def)
  have "distinct (map (\<lambda>g. Some (grp_id g)) (filterGroups s))"
    using distinct_filterGroups [OF dg] by (simp add: distinct_map inj_on_def)
  then have dgrp: "distinct (map groupId (filter isGroup (nodes l)))"
    using r by (simp add: n gids)
  have "filter isRoot ?acc = []" using noRoot by (simp add: filter_empty_conv)
  then have oneRoot: "length (filter isRoot (nodes l)) \<le> 1" by (simp add: n)
  have wf: "wellFormed (nodes l)"
    using kindsOk_layout [OF l] dgrp oneRoot by (simp add: wellFormed_def)
  have sibn: "sibYs gid (nodes l) = sibYs gid ?acc" for gid
    using r by (simp add: n)
  have gyn: "groupYs (nodes l) = groupYs ?acc"
    using r by (simp add: n groupYs_def)
  have c1: "midRange (sibYs (groupId g) (nodes l)) = Some (node_y g)"
    if "g \<in> set (nodes l)" "isGroup g" "sibYs (groupId g) (nodes l) \<noteq> []" for g
  proof -
    from that(1,2) r have "g \<in> set ?acc" by (auto simp: n)
    from accCentred [OF this that(2)] that(3) show ?thesis by (simp add: sibn)
  qed
  have c2: "midRange (groupYs (nodes l)) = Some (node_y q)"
    if "q \<in> set (nodes l)" "isRoot q" "groupYs (nodes l) \<noteq> []" for q
  proof -
    from that(1,2) noRoot have q: "q = r" by (auto simp: n)
    from that(3) obtain m where m: "midRange (groupYs ?acc) = Some m"
      using midRange_Some [of "groupYs ?acc"] by (auto simp: gyn)
    then show ?thesis by (simp add: q ry gyn)
  qed
  from wf c1 c2 show ?thesis unfolding centredMid_def by blast
qed

lemma onDrag_nodes:
  "allNodes (onDrag i newY v)
     = (if i < length (allNodes v) \<and> isStep (allNodes v ! i)
        then dragNodes i newY (allNodes v) else allNodes v)"
proof (cases "i < length (allNodes v) \<and> isStep (allNodes v ! i)")
  case True
  then show ?thesis using onDrag_fields [of i v newY] by simp
next
  case False
  then show ?thesis using onDrag_skip [OF False, of newY] by auto
qed

lemma onDrag_inv:
  assumes "wellFormed (allNodes v)" "centredMid (allNodes v)"
  shows "wellFormed (allNodes (onDrag i newY v)) \<and> centredMid (allNodes (onDrag i newY v))"
proof (cases "i < length (allNodes v) \<and> isStep (allNodes v ! i)")
  case True
  then have n: "allNodes (onDrag i newY v) = dragNodes i newY (allNodes v)"
    by (simp add: onDrag_nodes)
  have "wellFormed (dragNodes i newY (allNodes v))"
    using assms(1) wellFormed_frame [OF dragNodes_frame] by simp
  moreover have "centredMid (dragNodes i newY (allNodes v))"
    using True by (intro dragNodes_centred assms) simp_all
  ultimately show ?thesis by (simp add: n)
next
  case False
  then show ?thesis using assms by (auto simp: onDrag_nodes)
qed

lemma dragAll_inv:
  "wellFormed (allNodes v) \<Longrightarrow> centredMid (allNodes v)
     \<Longrightarrow> wellFormed (allNodes (dragAll ds v)) \<and> centredMid (allNodes (dragAll ds v))"
proof (induction ds arbitrary: v)
  case Nil
  then show ?case by (simp add: dragAll_def)
next
  case (Cons e ds)
  obtain i newY where e: "e = (i, newY)" by (cases e)
  have step: "wellFormed (allNodes (onDrag i newY v)) \<and> centredMid (allNodes (onDrag i newY v))"
    by (rule onDrag_inv [OF Cons.prems])
  have "dragAll (e # ds) v = dragAll ds (onDrag i newY v)"
    by (simp add: dragAll_def e)
  then show ?case using Cons.IH [of "onDrag i newY v"] step by simp
qed

lemma length_groupSteps:
  "length (groupSteps ss g) = length (filter (\<lambda>st. group_id st = grp_id g) ss)"
  by (simp add: groupSteps_def)

lemma layoutLoop_stepCount:
  assumes "\<And>b. b \<in> set (acc_swimlanes a) \<Longrightarrow>
      sl_stepCount b = length (filter (\<lambda>st. group_id st = grp_id (sl_grp b)) (steps s))"
    and "b \<in> set (acc_swimlanes (layoutLoop s gi gs a))"
  shows "sl_stepCount b = length (filter (\<lambda>st. group_id st = grp_id (sl_grp b)) (steps s))"
  using assms
proof (induction gs arbitrary: gi a)
  case Nil
  then show ?case by simp
next
  case (Cons g gs)
  show ?case
  proof (rule Cons.IH [where a = "layoutGroup s g gi a" and gi = "Suc gi"])
    fix c assume "c \<in> set (acc_swimlanes (layoutGroup s g gi a))"
    then show "sl_stepCount c = length (filter (\<lambda>st. group_id st = grp_id (sl_grp c)) (steps s))"
      using Cons.prems(1) by (auto simp: layoutGroup_swimlanes length_groupSteps)
  next
    show "b \<in> set (acc_swimlanes (layoutLoop s (Suc gi) gs (layoutGroup s g gi a)))"
      using Cons.prems(2) by simp
  qed
qed

text \<open>
  C3. For an assembly whose groups and steps have distinct identifiers: after any
  sequence of drags on the rendered layout (so also after a single one, and before any),
  every group node with at least one member step has \<open>y = (min + max) / 2\<close> over the
  current \<open>y\<close> of its member step nodes, and the root has \<open>y = (min + max) / 2\<close>
  over the current \<open>y\<close> of the group nodes. In the layout, the step count of a band is
  the number of steps of its group, and the group node of a band without steps is at the
  vertical centre of the band.
\<close>


theorem centroids_after_drags:
  assumes "calculateTreeLayout s = Inr (Some l)"
    and "distinct (map grp_id (groups s))"
    and "distinct (map step_id (steps s))"
  shows "centred (allNodes (dragAll ds (renderView s l)))
       \<and> list_all (\<lambda>b. sl_stepCount b = length (filter (\<lambda>st. group_id st = grp_id (sl_grp b)) (steps s))
                      \<and> (sl_stepCount b = 0 \<longrightarrow>
                           (\<exists>g \<in> set (nodes l). node_id g = GroupNode (grp_id (sl_grp b)) \<and> isGroup g
                              \<and> node_y g = sl_startY b + sl_height b / 2)))
           (swimlanes l)"
proof -
  have "wellFormed (nodes l) \<and> centredMid (nodes l)"
    by (rule layout_wellFormed_centred [OF assms])
  then have "centredMid (allNodes (dragAll ds (renderView s l)))"
    using dragAll_inv [of "renderView s l" ds] by simp
  then have c: "centred (allNodes (dragAll ds (renderView s l)))"
    by (simp add: centred_iff)
  let ?init = "\<lparr> acc_nodes = [], acc_links = [], acc_swimlanes = [], curY = topPad + headerH \<rparr>"
  from layout_fields(5) [OF assms(1)] obtain r where
    n: "nodes l = acc_nodes (layoutAcc s) @ [r]" by blast
  have sw: "swimlanes l = acc_swimlanes (layoutLoop s 0 (filterGroups s) ?init)"
    using layout_fields(1) [OF assms(1)] by (simp add: layoutAcc_def)
  have cnt: "sl_stepCount b = length (filter (\<lambda>st. group_id st = grp_id (sl_grp b)) (steps s))"
    if "b \<in> set (swimlanes l)" for b
    using that unfolding sw by (rule layoutLoop_stepCount [rotated]) simp
  have band: "\<exists>g \<in> set (nodes l). node_id g = GroupNode (grp_id (sl_grp b)) \<and> isGroup g
       \<and> node_y g = sl_startY b + sl_height b / 2"
    if b: "b \<in> set (swimlanes l)" and z: "sl_stepCount b = 0" for b
  proof -
    have "\<exists>g \<in> set (acc_nodes (layoutLoop s 0 (filterGroups s) ?init)).
        node_id g = GroupNode (grp_id (sl_grp b)) \<and> isGroup g
          \<and> node_y g = sl_startY b + sl_height b / 2"
      by (rule layoutLoop_empty_band [OF _ _ z]) (use b sw in simp_all)
    then show ?thesis by (auto simp: n layoutAcc_def)
  qed
  from c cnt band show ?thesis by (simp add: list_all_iff)
qed


lemma layout_returned:
  assumes "assy s \<noteq> None" "groups s \<noteq> []" "steps s \<noteq> []" "filterGroups s \<noteq> []"
  shows "\<exists>l. calculateTreeLayout s = Inr (Some l)"
  using assms by (auto simp: calculateTreeLayout_def Let_def split: option.splits)

lemma ex2_filterGroups:
  "filterGroups exState2 = exGroups @ [\<lparr> grp_id = 3, grp_label = ''C'', grp_sort_order = Some 5 \<rparr>]"
  by (simp add: filterGroups_def exState2_def exState_def sortGroups_def exGroups_def sortKey_def)

lemma ex2_steps: "steps exState2 = steps exState" "parts exState2 = parts exState"
  by (simp_all add: exState2_def)

lemma ex2_swimHeight [simp]: "swimHeight exState2 g = swimHeight exState g"
  by (simp add: swimHeight_def ex2_steps)

lemma ex_groupSteps_3:
  "groupSteps (steps exState) \<lparr> grp_id = 3, grp_label = ''C'', grp_sort_order = Some 5 \<rparr> = []"
  by (simp add: groupSteps_def exState_def exSteps_def)

lemma ex_swimHeight_3:
  "swimHeight exState \<lparr> grp_id = 3, grp_label = ''C'', grp_sort_order = Some 5 \<rparr> = 180"
  unfolding swimHeight_def ex_groupSteps_3
  by (simp add: stepGapY_def VERTICAL_GAP_def swimPadY_def)

lemma ex2_swimlanes:
  "acc_swimlanes (layoutAcc exState2)
   = [\<lparr> sl_grp = \<lparr> grp_id = 2, grp_label = ''B'', grp_sort_order = Some 1 \<rparr>, sl_gi = 0,
         sl_startY = 120, sl_height = 180, sl_stepCount = 1 \<rparr>,
      \<lparr> sl_grp = \<lparr> grp_id = 1, grp_label = ''A'', grp_sort_order = Some 1 \<rparr>, sl_gi = 1,
         sl_startY = 314, sl_height = 220, sl_stepCount = 2 \<rparr>,
      \<lparr> sl_grp = \<lparr> grp_id = 3, grp_label = ''C'', grp_sort_order = Some 5 \<rparr>, sl_gi = 2,
         sl_startY = 548, sl_height = 180, sl_stepCount = 0 \<rparr>]"
  unfolding layoutAcc_def ex2_filterGroups exGroups_def
  by (simp add: layoutGroup_swimlanes layoutGroup_curY ex_swimHeight_1 ex_swimHeight_2
      ex_swimHeight_3 ex2_steps ex_groupSteps_1 ex_groupSteps_2 ex_groupSteps_3
      topPad_def headerH_def swimGap_def)

theorem centroids_after_drags_witness:
  "centred (allNodes (dragAll [(0, 400), (2, 90)] (renderView exState exLayout)))
   \<and> (\<exists>l. calculateTreeLayout exState2 = Inr (Some l)
          \<and> centred (allNodes (dragAll [(0, 400)] (renderView exState2 l)))
          \<and> (\<exists>g \<in> set (nodes l). node_id g = GroupNode 3 \<and> isGroup g \<and> node_y g = 638))"
proof -
  have d: "distinct (map grp_id (groups exState))" "distinct (map step_id (steps exState))"
    by (simp_all add: exState_def exGroups_def exSteps_def)
  have one: "centred (allNodes (dragAll [(0, 400), (2, 90)] (renderView exState exLayout)))"
    using centroids_after_drags [OF ex_layout d, of "[(0, 400), (2, 90)]"] by blast
  have d2: "distinct (map grp_id (groups exState2))" "distinct (map step_id (steps exState2))"
    by (simp_all add: exState2_def exState_def exGroups_def exSteps_def)
  have "\<exists>l. calculateTreeLayout exState2 = Inr (Some l)"
    by (rule layout_returned)
      (simp_all add: ex2_filterGroups, simp_all add: exState2_def exState_def exSteps_def)
  then obtain l where l: "calculateTreeLayout exState2 = Inr (Some l)" by blast
  have sw: "swimlanes l = acc_swimlanes (layoutAcc exState2)"
    by (rule layout_fields(1) [OF l])
  from centroids_after_drags [OF l d2, of "[(0, 400)]"]
  have c: "centred (allNodes (dragAll [(0, 400)] (renderView exState2 l)))"
    and "\<exists>g \<in> set (nodes l). node_id g = GroupNode 3 \<and> isGroup g \<and> node_y g = 638"
    unfolding sw ex2_swimlanes by simp_all
  with l one show ?thesis by blast
qed


section \<open>Fastener labels under a node drag\<close>

lemma dragLink_labelpos:
  "map_option data_labelpos (fast_label (dragLink ns lg)) = map_option data_labelpos (fast_label lg)"
  by (cases "fast_label lg")
     (simp_all add: dragLink_def dragLabel_def Let_def split: option.splits)

lemma onDrag_labelpos:
  "map (\<lambda>lg. map_option data_labelpos (fast_label lg)) (linkGroups (onDrag i newY v))
     = map (\<lambda>lg. map_option data_labelpos (fast_label lg)) (linkGroups v)"
proof (cases "i < length (allNodes v) \<and> isStep (allNodes v ! i)")
  case True
  then show ?thesis
    using onDrag_fields [of i v newY] by (simp add: comp_def dragLink_labelpos)
next
  case False
  then show ?thesis using onDrag_skip [OF False, of newY] by auto
qed

lemma dragLink_anchor:
  assumes "lastNode (data_src lg) ns = Some src" "lastNode (data_tgt lg) ns = Some tgt"
    and "fast_label lg = Some fl" "data_labelpos fl \<noteq> 0"
  shows "map_option transform (fast_label (dragLink ns lg))
     = Some (bezierPoint (data_labelpos fl) (node_x src + node_w src / 2) (node_y src)
               (node_x tgt - node_w tgt / 2) (node_y tgt))"
  using assms by (simp add: dragLink_def dragLabel_def Let_def)

lemma ex_linkGroups_labels:
  "map fast_label (linkGroups exView)
     = [Some \<lparr> data_stepid = Some 20, data_labelpos = 0, data_sx = 295, data_sy = 150,
               data_tx = 435, data_ty = 150, transform = \<lparr> pt_x = 295, pt_y = 150 \<rparr>,
               label_lines = [PnLine] \<rparr>, None, None, None, None]"
  by (simp add: exView_def renderView_def exLayout_def exLinks_def exNodes_def
      List.map_filter_def renderLink_def labelLines_def truthy_def Let_def bezierPoint_def
      exState_def)

lemma ex_drag_labels:
  "map fast_label (linkGroups (onDrag 0 400 exView))
     = [Some \<lparr> data_stepid = Some 20, data_labelpos = 0, data_sx = 295, data_sy = 400,
               data_tx = 435, data_ty = 400, transform = \<lparr> pt_x = 365, pt_y = 400 \<rparr>,
               label_lines = [PnLine] \<rparr>, None, None, None, None]"
proof -
  have n: "allNodes exView = exNodes" by (simp add: exView_def renderView_def exLayout_def)
  have g: "0 < length (allNodes exView)" "isStep (allNodes exView ! 0)"
    by (simp_all add: n exNodes_def)
  have l: "map fast_label (linkGroups (onDrag 0 400 exView))
      = map (\<lambda>lg. fast_label (dragLink (allNodes (onDrag 0 400 exView)) lg)) (linkGroups exView)"
    using onDrag_fields [OF g, of 400] by (simp add: comp_def)
  have src: "map data_src (linkGroups exView)
      = [StepNode 20, GroupNode 2, StepNode 10, StepNode 11, GroupNode 1]"
    and tgt: "map data_tgt (linkGroups exView)
      = [GroupNode 2, RootNode, GroupNode 1, GroupNode 1, RootNode]"
    by (simp_all add: exView_def renderView_def exLayout_def exLinks_def exNodes_def
        List.map_filter_def renderLink_def Let_def)
  obtain a b c d e where lgs: "linkGroups exView = [a, b, c, d, e]"
    using src by (auto simp: map_eq_Cons_conv)
  show ?thesis
    unfolding l ex_drag_nodes
    using ex_linkGroups_labels src tgt
    by (simp add: lgs dragLink_def lastNode_def dragLabel_def Let_def bezierPoint_def)
qed

text \<open>
  C7. Dragging a node never changes a label's stored parameter (\<open>onDrag_labelpos\<close>),
  and for a stored \<open>t \<noteq> 0\<close> the anchor is recomputed at \<open>t\<close> on the new curve
  (\<open>dragLink_anchor\<close>). For the stored value \<open>0\<close> the handler takes \<open>0.5\<close>:
  in the example the label of step \<open>20\<close> is stored and first rendered at \<open>t = 0\<close>,
  and after the step is dragged to \<open>y = 400\<close> its anchor is the midpoint of the new
  curve, not the curve point at \<open>0\<close>, while the stored parameter is still \<open>0\<close>.
\<close>

theorem label_at_stored_zero_moves_to_midpoint:
  "map (\<lambda>lg. map_option data_labelpos (fast_label lg)) (linkGroups exView)
     = [Some 0, None, None, None, None]
   \<and> map (\<lambda>lg. map_option transform (fast_label lg)) (linkGroups exView)
     = [Some (bezierPoint 0 295 150 435 150), None, None, None, None]
   \<and> map (\<lambda>lg. map_option data_labelpos (fast_label lg)) (linkGroups (onDrag 0 400 exView))
     = [Some 0, None, None, None, None]
   \<and> map (\<lambda>lg. map_option transform (fast_label lg)) (linkGroups (onDrag 0 400 exView))
     = [Some (bezierPoint (1 / 2) 295 400 435 400), None, None, None, None]
   \<and> bezierPoint (1 / 2) 295 400 435 400 \<noteq> bezierPoint 0 295 400 435 400"
proof -
  have a: "map (\<lambda>lg. map_option h (fast_label lg)) lgs = map (map_option h) (map fast_label lgs)"
    for h :: "fast_label \<Rightarrow> 'b" and lgs
    by (simp add: comp_def)
  show ?thesis
    unfolding a ex_linkGroups_labels ex_drag_labels
    by (simp add: bezierPoint_def)
qed

end
